theory Spec2Isabelle
  imports Main "HOL-Library.Word"
begin

section \<open>Instants: the part of Go's \<open>time\<close> package the rules use\<close>

text \<open>
  A \<open>time.Time\<close> is an absolute instant together with a location. The model keeps the
  instant as a count of nanoseconds on the proleptic Gregorian wall clock, starting at
  0001-01-01T00:00:00, and the location as an uninterpreted handle: wall-clock fields are
  read at offset zero, as for \<open>time.UTC\<close>, which is the location every test of the
  repository uses. Zone offsets and their transitions are outside the model. Go's \<open>int\<close>
  is modelled by \<open>int\<close> in calendar arithmetic; the unsigned 64-bit \<open>Count\<close> field of a
  rule is a \<open>64 word\<close>.
\<close>

type_synonym Location = string
type_synonym Month = int

datatype Weekday = Sunday | Monday | Tuesday | Wednesday | Thursday | Friday | Saturday

record Time =
  t_abs :: int
  t_loc :: Location

fun weekday_num :: "Weekday \<Rightarrow> int" where
  "weekday_num Sunday = 0"
| "weekday_num Monday = 1"
| "weekday_num Tuesday = 2"
| "weekday_num Wednesday = 3"
| "weekday_num Thursday = 4"
| "weekday_num Friday = 5"
| "weekday_num Saturday = 6"

definition weekday_of :: "int \<Rightarrow> Weekday" where
  "weekday_of n = (let k = n mod 7 in
     if k = 0 then Sunday else if k = 1 then Monday else if k = 2 then Tuesday
     else if k = 3 then Wednesday else if k = 4 then Thursday
     else if k = 5 then Friday else Saturday)"

definition isLeap :: "int \<Rightarrow> bool" where
  "isLeap y = (y mod 4 = 0 \<and> (y mod 100 \<noteq> 0 \<or> y mod 400 = 0))"

definition leap_days :: "int \<Rightarrow> int" where
  "leap_days y = y div 4 - y div 100 + y div 400"

definition days_before_year :: "int \<Rightarrow> int" where
  "days_before_year y = 365 * (y - 1) + leap_days (y - 1)"

text \<open>Go's table \<open>daysBefore\<close>: days of a non-leap year before the end of month \<open>m\<close>.\<close>

definition daysBefore :: "int \<Rightarrow> int" where
  "daysBefore m =
     (if m \<le> 0 then 0 else if m = 1 then 31 else if m = 2 then 59 else if m = 3 then 90
      else if m = 4 then 120 else if m = 5 then 151 else if m = 6 then 181
      else if m = 7 then 212 else if m = 8 then 243 else if m = 9 then 273
      else if m = 10 then 304 else if m = 11 then 334 else 365)"

definition days_before_month :: "int \<Rightarrow> Month \<Rightarrow> int" where
  "days_before_month y m = daysBefore (m - 1) + (if isLeap y \<and> 3 \<le> m then 1 else 0)"

definition days_in_month :: "int \<Rightarrow> Month \<Rightarrow> int" where
  "days_in_month y m = days_before_month y (m + 1) - days_before_month y m"

text \<open>
  \<open>time.Date\<close> accepts any integers: the month overflows into the year, and days, hours,
  minutes, seconds and nanoseconds are added up from the first instant of the normalised
  month, so that October 32 is November 1 and day 0 is the last day of the month before.
\<close>

definition Date :: "int \<Rightarrow> Month \<Rightarrow> int \<Rightarrow> int \<Rightarrow> int \<Rightarrow> int \<Rightarrow> int \<Rightarrow> Location \<Rightarrow> Time" where
  "Date year month day hour minute sec ns l =
     (let m0 = month - 1;
          y = year + m0 div 12;
          m = m0 mod 12 + 1;
          d = days_before_year y + days_before_month y m + (day - 1)
      in \<lparr>t_abs = (d * 86400 + hour * 3600 + minute * 60 + sec) * 1000000000 + ns,
          t_loc = l\<rparr>)"

definition abs_sec :: "Time \<Rightarrow> int" where
  "abs_sec t = t_abs t div 1000000000"

definition abs_days :: "Time \<Rightarrow> int" where
  "abs_days t = abs_sec t div 86400"

definition year_of_days :: "int \<Rightarrow> int" where
  "year_of_days n =
     (let era = n div 146097;
          doe = n mod 146097;
          y0 = doe div 365;
          yoe = (if doe < 365 * y0 + leap_days y0 then y0 - 1 else y0)
      in era * 400 + yoe + 1)"

definition month_of_yday :: "bool \<Rightarrow> int \<Rightarrow> Month" where
  "month_of_yday lp yd =
     (let a = (if lp then 1 else 0) in
      if yd < 31 then 1 else if yd < 59 + a then 2 else if yd < 90 + a then 3
      else if yd < 120 + a then 4 else if yd < 151 + a then 5 else if yd < 181 + a then 6
      else if yd < 212 + a then 7 else if yd < 243 + a then 8 else if yd < 273 + a then 9
      else if yd < 304 + a then 10 else if yd < 334 + a then 11 else 12)"

definition Year :: "Time \<Rightarrow> int" where
  "Year t = year_of_days (abs_days t)"

definition YearDay0 :: "Time \<Rightarrow> int" where
  "YearDay0 t = abs_days t - days_before_year (Year t)"

definition Month :: "Time \<Rightarrow> Month" where
  "Month t = month_of_yday (isLeap (Year t)) (YearDay0 t)"

definition Day :: "Time \<Rightarrow> int" where
  "Day t = YearDay0 t - days_before_month (Year t) (Month t) + 1"

definition Hour :: "Time \<Rightarrow> int" where
  "Hour t = (abs_sec t mod 86400) div 3600"

definition Minute :: "Time \<Rightarrow> int" where
  "Minute t = (abs_sec t mod 3600) div 60"

definition Second :: "Time \<Rightarrow> int" where
  "Second t = abs_sec t mod 60"

definition Nanosecond :: "Time \<Rightarrow> int" where
  "Nanosecond t = t_abs t mod 1000000000"

definition Location :: "Time \<Rightarrow> Location" where
  "Location t = t_loc t"

text \<open>0001-01-01 is a Monday.\<close>

definition Weekday :: "Time \<Rightarrow> Weekday" where
  "Weekday t = weekday_of (abs_days t + 1)"

definition AddDate :: "Time \<Rightarrow> int \<Rightarrow> int \<Rightarrow> int \<Rightarrow> Time" where
  "AddDate t years months days =
     Date (Year t + years) (Month t + months) (Day t + days)
          (Hour t) (Minute t) (Second t) (Nanosecond t) (Location t)"

text \<open>\<open>Before\<close>, \<open>After\<close> and \<open>Equal\<close> compare instants and ignore the location.\<close>

definition Before :: "Time \<Rightarrow> Time \<Rightarrow> bool" where
  "Before t u = (t_abs t < t_abs u)"

definition After :: "Time \<Rightarrow> Time \<Rightarrow> bool" where
  "After t u = (t_abs u < t_abs t)"

section \<open>Rules\<close>

datatype Frequency = Secondly | Minutely | Hourly | Daily | Weekly | Monthly | Yearly

datatype InvalidBehavior = OmitInvalid | NextInvalid | PrevInvalid

record QualifiedWeekday =
  N :: int
  WD :: Weekday

section \<open>Calendar helpers the expansions call\<close>

text \<open>
  Modelled from the spec: \<open>forwardToWeekday\<close> and \<open>backToWeekday\<close> are called by
  \<open>expansions.go\<close> and defined in a file of the repository that is not available. The
  spec gives them as the smallest non-negative, respectively largest non-positive, shift
  in days that places \<open>t\<close> on the weekday \<open>wd\<close>.
\<close>

definition forwardToWeekday :: "Time \<Rightarrow> Weekday \<Rightarrow> Time" where
  "forwardToWeekday t wd = AddDate t 0 0 ((weekday_num wd - weekday_num (Weekday t)) mod 7)"

definition backToWeekday :: "Time \<Rightarrow> Weekday \<Rightarrow> Time" where
  "backToWeekday t wd = AddDate t 0 0 (- ((weekday_num (Weekday t) - weekday_num wd) mod 7))"

text \<open>
  Modelled from the spec: \<open>resolveDay\<close> is not in the available sources. If \<open>day\<close>
  exceeds the length of \<open>month\<close>, \<open>OmitInvalid\<close> drops the date, \<open>PrevInvalid\<close> gives
  the last valid day of \<open>month\<close> and \<open>NextInvalid\<close> the first day of \<open>month + 1\<close>.
\<close>

definition resolveDay :: "int \<Rightarrow> Month \<Rightarrow> int \<Rightarrow> InvalidBehavior \<Rightarrow> (int \<times> Month \<times> int) option" where
  "resolveDay year month day ib =
     (if days_in_month year month < day then
        (case ib of
           OmitInvalid \<Rightarrow> None
         | PrevInvalid \<Rightarrow> Some (year, month, days_in_month year month)
         | NextInvalid \<Rightarrow> Some (year, month + 1, 1))
      else Some (year, month, day))"

text \<open>
  Positions of a set-position list: 1-based from the start, negative from the end
  (\<open>-1\<close> is the last).
\<close>

definition project_setpos :: "int list \<Rightarrow> 'a list \<Rightarrow> 'a list" where
  "project_setpos setPos xs =
     (let n = int (length xs) in
      map snd (filter (\<lambda>(i, x). i \<in> set setPos \<or> i - n - 1 \<in> set setPos)
                 (zip [1..n] xs)))"

definition at_day :: "Time \<Rightarrow> (int \<times> Month \<times> int) \<Rightarrow> Time" where
  "at_day t ymd = (case ymd of (y, m, d) \<Rightarrow>
     Date y m d (Hour t) (Minute t) (Second t) (Nanosecond t) (Location t))"

text \<open>
  Modelled from the spec: \<open>weekdaysInMonth\<close> is not in the available sources. It gives
  every instant of \<open>t\<close>'s month that matches one of the qualified weekdays, at \<open>t\<close>'s
  clock time: a positive \<open>n\<close> selects the n-th such weekday from the start of the month,
  a negative one from its end, and \<open>n = 0\<close> all of them. An ordinal beyond the end of
  the month is a day that exceeds the month's length and goes through \<open>resolveDay\<close>; one
  before its start selects nothing. With a non-empty \<open>setPos\<close> the instants are sorted and
  filtered to these positions.
\<close>

definition first_weekday_in_month :: "int \<Rightarrow> Month \<Rightarrow> Weekday \<Rightarrow> int" where
  "first_weekday_in_month y m wd =
     1 + (weekday_num wd - weekday_num (Weekday (Date y m 1 0 0 0 0 []))) mod 7"

definition month_days_of :: "Time \<Rightarrow> InvalidBehavior \<Rightarrow> QualifiedWeekday \<Rightarrow> Time list" where
  "month_days_of t ib q =
     (let y = Year t; m = Month t; len = days_in_month y m;
          first = first_weekday_in_month y m (WD q);
          last = first + 7 * ((len - first) div 7)
      in if N q = 0 then
           map (\<lambda>k. at_day t (y, m, first + 7 * k)) [0..(len - first) div 7]
         else if 0 < N q then
           map (at_day t) (case resolveDay y m (first + 7 * (N q - 1)) ib of
                             None \<Rightarrow> [] | Some ymd \<Rightarrow> [ymd])
         else
           (if last + 7 * (N q + 1) < 1 then []
            else [at_day t (y, m, last + 7 * (N q + 1))]))"

definition weekdaysInMonth ::
  "Time \<Rightarrow> QualifiedWeekday list \<Rightarrow> int list \<Rightarrow> InvalidBehavior \<Rightarrow> Time list" where
  "weekdaysInMonth t qwds setPos ib =
     (let all = concat (map (month_days_of t ib) qwds)
      in if setPos = [] then all else project_setpos setPos (sort_key t_abs all))"

text \<open>
  Modelled from the spec: \<open>weekdaysInYear\<close> is not in the available sources; the spec
  describes it as the analogue of \<open>weekdaysInMonth\<close> for \<open>t\<close>'s year and one qualified
  weekday.
\<close>

definition days_in_year :: "int \<Rightarrow> int" where
  "days_in_year y = (if isLeap y then 366 else 365)"

definition weekdaysInYear :: "Time \<Rightarrow> QualifiedWeekday \<Rightarrow> InvalidBehavior \<Rightarrow> Time list" where
  "weekdaysInYear t q ib =
     (let y = Year t; len = days_in_year y;
          first = first_weekday_in_month y 1 (WD q);
          last = first + 7 * ((len - first) div 7)
      in if N q = 0 then
           map (\<lambda>k. at_day t (y, 1, first + 7 * k)) [0..(len - first) div 7]
         else if 0 < N q then
           (if len < first + 7 * (N q - 1) then
              (case ib of
                 OmitInvalid \<Rightarrow> []
               | PrevInvalid \<Rightarrow> [at_day t (y, 12, 31)]
               | NextInvalid \<Rightarrow> [at_day t (y + 1, 1, 1)])
            else [at_day t (y, 1, first + 7 * (N q - 1))])
         else
           (if last + 7 * (N q + 1) < 1 then []
            else [at_day t (y, 1, last + 7 * (N q + 1))]))"

section \<open>The expansions of \<open>expansions.go\<close>\<close>

text \<open>
  Each expansion returns its input when the BY-part is empty, and otherwise runs two
  nested loops that append to an initially empty slice \<open>e\<close>.
\<close>

definition expandBySeconds :: "Time list \<Rightarrow> int list \<Rightarrow> Time list" where
  "expandBySeconds tt seconds =
     (if length seconds = 0 then tt
      else foldl (\<lambda>e t. foldl (\<lambda>e s. e @
             [Date (Year t) (Month t) (Day t) (Hour t) (Minute t) s (Nanosecond t) (Location t)])
             e seconds) [] tt)"

definition expandByMinutes :: "Time list \<Rightarrow> int list \<Rightarrow> Time list" where
  "expandByMinutes tt minutes =
     (if length minutes = 0 then tt
      else foldl (\<lambda>e t. foldl (\<lambda>e m. e @
             [Date (Year t) (Month t) (Day t) (Hour t) m (Second t) (Nanosecond t) (Location t)])
             e minutes) [] tt)"

definition expandByHours :: "Time list \<Rightarrow> int list \<Rightarrow> Time list" where
  "expandByHours tt hours =
     (if length hours = 0 then tt
      else foldl (\<lambda>e t. foldl (\<lambda>e h. e @
             [Date (Year t) (Month t) (Day t) h (Minute t) (Second t) (Nanosecond t) (Location t)])
             e hours) [] tt)"

definition expandByWeekdays :: "Time list \<Rightarrow> Weekday \<Rightarrow> QualifiedWeekday list \<Rightarrow> Time list" where
  "expandByWeekdays tt weekStart weekdays =
     (if length weekdays = 0 then tt
      else foldl (\<lambda>e t. let t' = backToWeekday t weekStart in
             foldl (\<lambda>e wd. e @ [forwardToWeekday t' (WD wd)]) e weekdays) [] tt)"

definition expandByMonthDays :: "Time list \<Rightarrow> int list \<Rightarrow> Time list" where
  "expandByMonthDays tt monthdays =
     (if length monthdays = 0 then tt
      else foldl (\<lambda>e t. foldl (\<lambda>e md. e @
             [Date (Year t) (Month t) md (Hour t) (Minute t) (Second t) (Nanosecond t) (Location t)])
             e monthdays) [] tt)"

definition expandByYearDays :: "Time list \<Rightarrow> int list \<Rightarrow> Time list" where
  "expandByYearDays tt yeardays =
     (if length yeardays = 0 then tt
      else foldl (\<lambda>e t.
             let yearStart = Date (Year t) 1 1 (Hour t) (Minute t) (Second t) (Nanosecond t) (Location t)
             in foldl (\<lambda>e yd. e @ [AddDate yearStart 0 0 yd]) e yeardays) [] tt)"

definition expandByWeekNumbers :: "Time list \<Rightarrow> Weekday \<Rightarrow> int list \<Rightarrow> Time list" where
  "expandByWeekNumbers tt weekStarts weekNumbers =
     (if length weekNumbers = 0 then tt
      else foldl (\<lambda>e t.
             let yearStart = Date (Year t) 1 1 (Hour t) (Minute t) (Second t) (Nanosecond t) (Location t);
                 yearStart' = forwardToWeekday yearStart (Weekday t)
             in foldl (\<lambda>e w. e @ [AddDate yearStart' 0 0 ((w - 1) * 7)]) e weekNumbers) [] tt)"

definition expandByMonths :: "Time list \<Rightarrow> InvalidBehavior \<Rightarrow> Month list \<Rightarrow> Time list" where
  "expandByMonths tt ib months =
     (if length months = 0 then tt
      else foldl (\<lambda>e t. foldl (\<lambda>e m.
             let set = Date (Year t) m (Day t) (Hour t) (Minute t) (Second t) (Nanosecond t) (Location t)
             in if Month set \<noteq> m then
                  (case ib of
                     PrevInvalid \<Rightarrow> e @ [Date (Year t) (Month t + 1) (- 1) (Hour t) (Minute t) (Second t) (Nanosecond t) (Location t)]
                   | NextInvalid \<Rightarrow> e @ [Date (Year t) (Month t + 1) 1 (Hour t) (Minute t) (Second t) (Nanosecond t) (Location t)]
                   | OmitInvalid \<Rightarrow> e)
                else e @ [set])
             e months) [] tt)"

definition expandMonthByWeekdays ::
  "Time list \<Rightarrow> InvalidBehavior \<Rightarrow> int list \<Rightarrow> QualifiedWeekday list \<Rightarrow> Time list" where
  "expandMonthByWeekdays tt ib bySetPos weekdays =
     (if length weekdays = 0 then tt
      else foldl (\<lambda>e t. e @ weekdaysInMonth t weekdays bySetPos ib) [] tt)"

definition expandYearByWeekdays ::
  "Time list \<Rightarrow> InvalidBehavior \<Rightarrow> QualifiedWeekday list \<Rightarrow> Time list" where
  "expandYearByWeekdays tt ib weekdays =
     (if length weekdays = 0 then tt
      else foldl (\<lambda>e t. foldl (\<lambda>e wd. e @ weekdaysInYear t wd ib) e weekdays) [] tt)"

text \<open>The anchor of the repository's tests: \<open>time.Date(2018, 8, 25, 9, 8, 7, 6, time.UTC)\<close>.\<close>

definition now :: Time where
  "now = Date 2018 8 25 9 8 7 6 ''UTC''"

text \<open>
  January 1 of \<open>t\<close>'s year, at \<open>t\<close>'s clock time, advanced to \<open>t\<close>'s own weekday.
\<close>

definition week_anchor :: "Time \<Rightarrow> Time" where
  "week_anchor t =
     forwardToWeekday
       (Date (Year t) 1 1 (Hour t) (Minute t) (Second t) (Nanosecond t) (Location t))
       (Weekday t)"

text \<open>An instant on the 31st of a month, to place into shorter months.\<close>

definition jan31 :: Time where
  "jan31 = Date 2018 1 31 9 8 7 0 ''UTC''"

section \<open>Parsing: rules and recurrences\<close>

datatype error =
    MisformattedLine string
  | InvalidSegment string
  | UnsupportedPart string
  | EmptyWeekdaySegment
  | InvalidWeekday string
  | InvalidFrequency string
  | ErrSyntax string
  | ErrRange string
  | ExternalError string

record RRule =
  Frequency :: Frequency
  Until :: Time
  UntilFloating :: bool
  Count :: "64 word"
  Dtstart :: Time
  Interval :: int
  BySeconds :: "int list"
  ByMinutes :: "int list"
  ByHours :: "int list"
  ByWeekdays :: "QualifiedWeekday list"
  ByMonthDays :: "int list"
  ByWeekNumbers :: "int list"
  ByMonths :: "Month list"
  ByYearDays :: "int list"
  BySetPos :: "int list"
  InvalidBehavior :: InvalidBehavior
  WeekStart :: "Weekday option"

record Recurrence =
  Dtstart_rec :: Time
  FloatingLocation :: bool
  RRules :: "RRule list"
  ExRules :: "RRule list"
  RDates :: "Time list"
  ExDates :: "Time list"

definition zero_Time :: Time where
  "zero_Time = \<lparr>t_abs = 0, t_loc = ''UTC''\<rparr>"

definition zero_RRule :: RRule where
  "zero_RRule = \<lparr>Frequency = Secondly, Until = zero_Time, UntilFloating = False, Count = 0,
     Dtstart = zero_Time, Interval = 0, BySeconds = [], ByMinutes = [], ByHours = [],
     ByWeekdays = [], ByMonthDays = [], ByWeekNumbers = [], ByMonths = [], ByYearDays = [],
     BySetPos = [], InvalidBehavior = OmitInvalid, WeekStart = None\<rparr>"

definition zero_Recurrence :: Recurrence where
  "zero_Recurrence = \<lparr>Dtstart_rec = zero_Time, FloatingLocation = False, RRules = [],
     ExRules = [], RDates = [], ExDates = []\<rparr>"

record Externals =
  parseTime :: "string \<Rightarrow> Location option \<Rightarrow> error + (Time \<times> bool)"
  Validate :: "RRule \<Rightarrow> error option"
  setDtstart :: "Recurrence \<Rightarrow> Recurrence"
  unicodeUpper :: "string \<Rightarrow> string"
  unicodeLower :: "string \<Rightarrow> string"
  unicodeDigitLen :: "string \<Rightarrow> nat"

definition is_ascii :: "char \<Rightarrow> bool" where
  "is_ascii c = ((of_char c :: nat) < 128)"

definition is_digit :: "char \<Rightarrow> bool" where
  "is_digit c = (48 \<le> (of_char c :: nat) \<and> (of_char c :: nat) \<le> 57)"

definition ascii_upper :: "char \<Rightarrow> char" where
  "ascii_upper c = (if 97 \<le> (of_char c :: nat) \<and> (of_char c :: nat) \<le> 122
                    then char_of ((of_char c :: nat) - 32) else c)"

definition ascii_lower :: "char \<Rightarrow> char" where
  "ascii_lower c = (if 65 \<le> (of_char c :: nat) \<and> (of_char c :: nat) \<le> 90
                    then char_of ((of_char c :: nat) + 32) else c)"

definition ToUpper :: "Externals \<Rightarrow> string \<Rightarrow> string" where
  "ToUpper ext s = (if list_all is_ascii s then map ascii_upper s else unicodeUpper ext s)"

definition ToLower :: "Externals \<Rightarrow> string \<Rightarrow> string" where
  "ToLower ext s = (if list_all is_ascii s then map ascii_lower s else unicodeLower ext s)"

fun Split :: "string \<Rightarrow> char \<Rightarrow> string list" where
  "Split [] d = [[]]"
| "Split (c # cs) d =
     (if c = d then [] # Split cs d
      else (case Split cs d of [] \<Rightarrow> [[c]] | p # ps \<Rightarrow> (c # p) # ps))"

definition SplitN2 :: "string \<Rightarrow> char \<Rightarrow> string list" where
  "SplitN2 s d = (if d \<in> set s then [takeWhile (\<lambda>c. c \<noteq> d) s, tl (dropWhile (\<lambda>c. c \<noteq> d) s)]
                  else [s])"

fun digits_value :: "int \<Rightarrow> string \<Rightarrow> int option" where
  "digits_value n [] = Some n"
| "digits_value n (c # cs) =
     (if is_digit c then digits_value (n * 10 + (int (of_char c) - 48)) cs else None)"

definition Atoi :: "string \<Rightarrow> error + int" where
  "Atoi s =
     (let neg = (s \<noteq> [] \<and> hd s = CHR ''-'');
          body = (if s \<noteq> [] \<and> (hd s = CHR ''-'' \<or> hd s = CHR ''+'') then tl s else s)
      in if body = [] then Inl (ErrSyntax s)
         else (case digits_value 0 body of
                 None \<Rightarrow> Inl (ErrSyntax s)
               | Some n \<Rightarrow>
                   (let v = (if neg then - n else n)
                    in if v < - (2 ^ 63) \<or> 2 ^ 63 \<le> v then Inl (ErrRange s) else Inr v)))"

definition MaxScanTokenSize :: nat where
  "MaxScanTokenSize = 65536"

fun scan :: "char \<Rightarrow> string \<Rightarrow> string \<Rightarrow> string list" where
  "scan d acc [] = (if acc = [] then [] else [rev acc])"
| "scan d acc (c # cs) =
     (if c = d then rev acc # scan d [] cs
      else if MaxScanTokenSize \<le> length acc + 1 then []
      else scan d (c # acc) cs)"

definition dropCR :: "string \<Rightarrow> string" where
  "dropCR data = (if data \<noteq> [] \<and> last data = CHR 0x0D then butlast data else data)"

definition ScanLines :: "string \<Rightarrow> string list" where
  "ScanLines src = map dropCR (scan (CHR 0x0A) [] src)"

fun mapM :: "('a \<Rightarrow> error + 'b) \<Rightarrow> 'a list \<Rightarrow> error + 'b list" where
  "mapM f [] = Inr []"
| "mapM f (x # xs) =
     (case f x of
        Inl e \<Rightarrow> Inl e
      | Inr y \<Rightarrow> (case mapM f xs of Inl e \<Rightarrow> Inl e | Inr ys \<Rightarrow> Inr (y # ys)))"

definition parseInts :: "string \<Rightarrow> error + int list" where
  "parseInts str = (if length str = 0 then Inr [] else mapM Atoi (Split str (CHR '','')))"

definition parseMonths :: "string \<Rightarrow> error + Month list" where
  "parseMonths str = mapM Atoi (Split str (CHR '',''))"

definition parseWeekday :: "Externals \<Rightarrow> string \<Rightarrow> error + Weekday" where
  "parseWeekday ext str =
     (let s = ToLower ext str in
      if s = ''mo'' then Inr Monday
      else if s = ''tu'' then Inr Tuesday
      else if s = ''we'' then Inr Wednesday
      else if s = ''th'' then Inr Thursday
      else if s = ''fr'' then Inr Friday
      else if s = ''sa'' then Inr Saturday
      else if s = ''su'' then Inr Sunday
      else Inl (InvalidWeekday str))"

definition strToFreq :: "Externals \<Rightarrow> string \<Rightarrow> error + Frequency" where
  "strToFreq ext str =
     (let s = ToLower ext str in
      if s = ''secondly'' then Inr Secondly
      else if s = ''minutely'' then Inr Minutely
      else if s = ''hourly'' then Inr Hourly
      else if s = ''daily'' then Inr Daily
      else if s = ''weekly'' then Inr Weekly
      else if s = ''monthly'' then Inr Monthly
      else if s = ''yearly'' then Inr Yearly
      else Inl (InvalidFrequency str))"

function digit_run :: "Externals \<Rightarrow> string \<Rightarrow> nat" where
  "digit_run ext [] = 0"
| "digit_run ext (c # cs) =
     (if is_ascii c then (if is_digit c then 1 + digit_run ext cs else 0)
      else (let n = unicodeDigitLen ext (c # cs)
            in if n = 0 then 0 else n + digit_run ext (drop n (c # cs))))"
  by pat_completeness auto
termination
  by (relation "measure (\<lambda>(ext, s). length s)") auto

definition parseQualifiedWeekday :: "Externals \<Rightarrow> string \<Rightarrow> error + QualifiedWeekday" where
  "parseQualifiedWeekday ext p =
     (if length p = 0 then Inl EmptyWeekdaySegment
      else
        (let idx0 = (if hd p = CHR ''-'' \<or> hd p = CHR ''+'' then 1 else 0);
             idx = idx0 + digit_run ext (drop idx0 p)
         in case (if 0 < idx then Atoi (take idx p) else Inr 0) of
              Inl e \<Rightarrow> Inl e
            | Inr digit \<Rightarrow>
                (case parseWeekday ext (drop idx p) of
                   Inl e \<Rightarrow> Inl e
                 | Inr wd \<Rightarrow> Inr \<lparr>N = digit, WD = wd\<rparr>)))"

definition parseQualifiedWeekdays :: "Externals \<Rightarrow> string \<Rightarrow> error + QualifiedWeekday list" where
  "parseQualifiedWeekdays ext str = mapM (parseQualifiedWeekday ext) (Split str (CHR '',''))"

definition store ::
  "(error + 'a) \<Rightarrow> ('a \<Rightarrow> RRule) \<Rightarrow> error + RRule" where
  "store r upd = (case r of Inl e \<Rightarrow> Inl e | Inr v \<Rightarrow> Inr (upd v))"

text \<open>The \<open>switch\<close> of \<open>ParseRRule\<close> on the upper-cased directive.\<close>

definition apply_directive ::
  "Externals \<Rightarrow> RRule \<Rightarrow> string \<Rightarrow> string \<Rightarrow> string \<Rightarrow> error + RRule" where
  "apply_directive ext rrule directive v wholeComponent =
     (let key = ToUpper ext directive in
       if key = ''FREQ'' then store (strToFreq ext v) (\<lambda>freq. rrule\<lparr>Frequency := freq\<rparr>)
       else if key = ''UNTIL'' then
         store (parseTime ext wholeComponent None)
           (\<lambda>(t, floating). rrule\<lparr>Until := t, UntilFloating := floating\<rparr>)
       else if key = ''COUNT'' then store (Atoi v) (\<lambda>i. rrule\<lparr>Count := word_of_int i\<rparr>)
       else if key = ''INTERVAL'' then store (Atoi v) (\<lambda>i. rrule\<lparr>Interval := i\<rparr>)
       else if key = ''BYSECOND'' then store (parseInts v) (\<lambda>ints. rrule\<lparr>BySeconds := ints\<rparr>)
       else if key = ''BYMINUTE'' then store (parseInts v) (\<lambda>ints. rrule\<lparr>ByMinutes := ints\<rparr>)
       else if key = ''BYHOUR'' then store (parseInts v) (\<lambda>ints. rrule\<lparr>ByHours := ints\<rparr>)
       else if key = ''BYDAY'' then
         store (parseQualifiedWeekdays ext v) (\<lambda>wds. rrule\<lparr>ByWeekdays := wds\<rparr>)
       else if key = ''BYMONTHDAY'' then store (parseInts v) (\<lambda>ints. rrule\<lparr>ByMonthDays := ints\<rparr>)
       else if key = ''BYYEARDAY'' then store (parseInts v) (\<lambda>ints. rrule\<lparr>ByYearDays := ints\<rparr>)
       else if key = ''BYWEEKNO'' then store (parseInts v) (\<lambda>ints. rrule\<lparr>ByWeekNumbers := ints\<rparr>)
       else if key = ''BYMONTH'' then store (parseMonths v) (\<lambda>months. rrule\<lparr>ByMonths := months\<rparr>)
       else if key = ''BYSETPOS'' then store (parseInts v) (\<lambda>ints. rrule\<lparr>BySetPos := ints\<rparr>)
       else if key = ''WKST'' then store (parseWeekday ext v) (\<lambda>wd. rrule\<lparr>WeekStart := Some wd\<rparr>)
       else Inl (UnsupportedPart directive))"

definition parse_segment :: "Externals \<Rightarrow> RRule \<Rightarrow> string \<Rightarrow> error + RRule" where
  "parse_segment ext rrule wholeComponent =
     (case SplitN2 wholeComponent (CHR ''='') of
        [directive, v] \<Rightarrow> apply_directive ext rrule directive v wholeComponent
      | _ \<Rightarrow> Inl (InvalidSegment wholeComponent))"

fun parse_segments :: "Externals \<Rightarrow> RRule \<Rightarrow> string list \<Rightarrow> RRule \<times> error option" where
  "parse_segments ext rrule [] = (rrule, Validate ext rrule)"
| "parse_segments ext rrule (seg # segs) =
     (case parse_segment ext rrule seg of
        Inl e \<Rightarrow> (rrule, Some e)
      | Inr rrule' \<Rightarrow> parse_segments ext rrule' segs)"

definition ParseRRule :: "Externals \<Rightarrow> string \<Rightarrow> RRule \<times> error option" where
  "ParseRRule ext str = parse_segments ext zero_RRule (scan (CHR '';'') [] str)"

fun IndexAny_colon :: "string \<Rightarrow> nat option" where
  "IndexAny_colon [] = None"
| "IndexAny_colon (c # cs) =
     (if c = CHR '':'' \<or> c = CHR '';'' then Some 0 else map_option Suc (IndexAny_colon cs))"

definition parse_line ::
  "Externals \<Rightarrow> Location option \<Rightarrow> Recurrence \<Rightarrow> string \<Rightarrow> error + Recurrence" where
  "parse_line ext loc recurrence text =
     (case IndexAny_colon text of
        None \<Rightarrow> Inl (MisformattedLine text)
      | Some colonIdx \<Rightarrow>
          if int (length text) - 1 = int colonIdx then Inl (MisformattedLine text)
          else
            (let propName = take colonIdx text; propVal = drop (colonIdx + 1) text in
             if propName = ''DTSTART'' then
               (case parseTime ext text loc of
                  Inl e \<Rightarrow> Inl e
                | Inr (t, floating) \<Rightarrow>
                    Inr (recurrence\<lparr>Dtstart_rec := t, FloatingLocation := floating\<rparr>))
             else if propName = ''RRULE'' then
               (case ParseRRule ext propVal of
                  (rrule, Some e) \<Rightarrow> Inl e
                | (rrule, None) \<Rightarrow> Inr (recurrence\<lparr>RRules := RRules recurrence @ [rrule]\<rparr>))
             else if propName = ''EXRULE'' then
               (case ParseRRule ext propVal of
                  (rrule, Some e) \<Rightarrow> Inl e
                | (rrule, None) \<Rightarrow> Inr (recurrence\<lparr>ExRules := ExRules recurrence @ [rrule]\<rparr>))
             else if propName = ''RDATE'' then
               (case parseTime ext propVal loc of
                  Inl e \<Rightarrow> Inl e
                | Inr (t, floating) \<Rightarrow> Inr (recurrence\<lparr>RDates := RDates recurrence @ [t]\<rparr>))
             else if propName = ''EXDATE'' then
               (case parseTime ext propVal loc of
                  Inl e \<Rightarrow> Inl e
                | Inr (t, floating) \<Rightarrow> Inr (recurrence\<lparr>ExDates := ExDates recurrence @ [t]\<rparr>))
             else Inr recurrence))"

fun parse_lines ::
  "Externals \<Rightarrow> Location option \<Rightarrow> Recurrence \<Rightarrow> string list \<Rightarrow> error + Recurrence" where
  "parse_lines ext loc recurrence [] = Inr (setDtstart ext recurrence)"
| "parse_lines ext loc recurrence (text # rest) =
     (case parse_line ext loc recurrence text of
        Inl e \<Rightarrow> Inl e
      | Inr recurrence' \<Rightarrow> parse_lines ext loc recurrence' rest)"

definition ParseRecurrence :: "Externals \<Rightarrow> string \<Rightarrow> Location option \<Rightarrow> error + Recurrence" where
  "ParseRecurrence ext src loc = parse_lines ext loc zero_Recurrence (ScanLines src)"

text \<open>
  An instance of the external functions for running examples on ASCII input: time values
  are never accepted, every rule passes validation, and the Unicode tables are never
  consulted.
\<close>

definition example_externals :: Externals where
  "example_externals = \<lparr>parseTime = (\<lambda>s l. Inl (ExternalError s)), Validate = (\<lambda>r. None),
     setDtstart = (\<lambda>r. r), unicodeUpper = (\<lambda>s. s), unicodeLower = (\<lambda>s. s),
     unicodeDigitLen = (\<lambda>s. 0)\<rparr>"

text \<open>The segments of a string between occurrences of a separator, without a final empty one.\<close>

definition trim_last :: "string list \<Rightarrow> string list" where
  "trim_last ps = (if ps \<noteq> [] \<and> last ps = [] then butlast ps else ps)"

text \<open>The keys of an RRULE body, as the spec lists them.\<close>

definition supported_keys :: "string list" where
  "supported_keys = [''FREQ'', ''UNTIL'', ''COUNT'', ''INTERVAL'', ''BYSECOND'', ''BYMINUTE'',
     ''BYHOUR'', ''BYDAY'', ''BYMONTHDAY'', ''BYYEARDAY'', ''BYWEEKNO'', ''BYMONTH'',
     ''BYSETPOS'', ''WKST'']"

text \<open>The property names \<open>ParseRecurrence\<close> recognises, as the spec lists them.\<close>

definition known_names :: "string list" where
  "known_names = [''DTSTART'', ''RRULE'', ''EXRULE'', ''RDATE'', ''EXDATE'']"

definition is_sep :: "char \<Rightarrow> bool" where
  "is_sep c = (c = CHR '':'' \<or> c = CHR '';'')"

text \<open>
  A line is malformed when it has no \<open>:\<close> or \<open>;\<close>, or when the first such character is
  its last character.
\<close>

definition malformed :: "string \<Rightarrow> bool" where
  "malformed l = (list_all (\<lambda>c. \<not> is_sep c) l \<or>
                  (l \<noteq> [] \<and> is_sep (last l) \<and> list_all (\<lambda>c. \<not> is_sep c) (butlast l)))"

definition prop_name :: "string \<Rightarrow> string" where
  "prop_name l = takeWhile (\<lambda>c. \<not> is_sep c) l"

text \<open>The lines of an input: its pieces between line feeds, each without a final carriage return.\<close>

definition lines_of :: "string \<Rightarrow> string list" where
  "lines_of src = map dropCR (trim_last (Split src (CHR 0x0A)))"

text \<open>A token of exactly \<open>MaxScanTokenSize\<close> bytes.\<close>

definition long_token :: string where
  "long_token = replicate 65536 (CHR ''A'')"

text \<open>
  BYDAY segments as the spec describes them: an optional sign and decimal digits, then a
  two-letter weekday code in any casing.
\<close>

definition weekday_codes :: "(string \<times> Weekday) list" where
  "weekday_codes = [(''MO'', Monday), (''TU'', Tuesday), (''WE'', Wednesday), (''TH'', Thursday),
     (''FR'', Friday), (''SA'', Saturday), (''SU'', Sunday)]"

definition weekday_code :: "string \<Rightarrow> Weekday option" where
  "weekday_code s = map_of weekday_codes (map ascii_upper s)"

definition decimal :: "string \<Rightarrow> int" where
  "decimal ds = foldl (\<lambda>n c. n * 10 + (int (of_char c) - 48)) 0 ds"

type_synonym byday_segment = "string \<times> string \<times> string"

definition seg_text :: "byday_segment \<Rightarrow> string" where
  "seg_text s = (case s of (sg, ds, code) \<Rightarrow> sg @ ds @ code)"

definition seg_ordinal :: "byday_segment \<Rightarrow> int" where
  "seg_ordinal s = (case s of (sg, ds, code) \<Rightarrow> if sg = ''-'' then - decimal ds else decimal ds)"

definition seg_shape :: "byday_segment \<Rightarrow> bool" where
  "seg_shape s = (case s of (sg, ds, code) \<Rightarrow>
     (sg = [] \<or> ((sg = ''+'' \<or> sg = ''-'') \<and> ds \<noteq> [])) \<and> list_all is_digit ds \<and>
     weekday_code code \<noteq> None)"

definition seg_value :: "byday_segment \<Rightarrow> QualifiedWeekday" where
  "seg_value s = (case s of (sg, ds, code) \<Rightarrow>
     \<lparr>N = seg_ordinal s, WD = (case weekday_code code of Some wd \<Rightarrow> wd | None \<Rightarrow> Sunday)\<rparr>)"

definition in_int_range :: "int \<Rightarrow> bool" where
  "in_int_range n = (- (2 ^ 63) \<le> n \<and> n < 2 ^ 63)"

fun join_commas :: "string list \<Rightarrow> string" where
  "join_commas [] = []"
| "join_commas [s] = s"
| "join_commas (s # t # ts) = s @ CHR '','' # join_commas (t # ts)"

text \<open>The length of the optional sign and the ASCII digits at the start of a segment.\<close>

definition prefix_len :: "string \<Rightarrow> nat" where
  "prefix_len p =
     (let idx0 = (if p \<noteq> [] \<and> (hd p = CHR ''-'' \<or> hd p = CHR ''+'') then 1 else 0)
      in idx0 + length (takeWhile is_digit (drop idx0 p)))"

section \<open>The occurrence generator\<close>

text \<open>
  Modelled from the spec: the iterator of a rule and its \<open>All\<close> operation are not in the
  available sources. The spec gives an outer loop over periods: the candidate set of the
  current period is built from one instant at the period's anchor by the expansions and
  limit filters that the frequency selects, sorted and deduplicated, projected through
  \<open>bySetPos\<close>, stripped of the candidates before \<open>dtstart\<close>, after \<open>until\<close> or already
  yielded, and yielded in order; then the period advances by \<open>interval\<close> units of the
  frequency. The generator is \<open>Active\<close> until the count is reached or \<open>until\<close> is passed
  (\<open>Drained\<close>) or 10000 consecutive periods have yielded nothing (\<open>Failed\<close>). A count of
  zero and a zero \<open>until\<close> mean that the bound is absent; an interval of zero is the
  default of 1.
\<close>

datatype GenStatus = Active | Drained | Failed

record Generator =
  period :: Time
  yielded :: "Time list"
  empties :: nat
  status :: GenStatus

definition Add_seconds :: "Time \<Rightarrow> int \<Rightarrow> Time" where
  "Add_seconds t n = t\<lparr>t_abs := t_abs t + n * 1000000000\<rparr>"

definition step :: "Time \<Rightarrow> Frequency \<Rightarrow> int \<Rightarrow> Time" where
  "step t freq interval =
     (case freq of
        Secondly \<Rightarrow> Add_seconds t interval
      | Minutely \<Rightarrow> Add_seconds t (60 * interval)
      | Hourly \<Rightarrow> Add_seconds t (3600 * interval)
      | Daily \<Rightarrow> AddDate t 0 0 interval
      | Weekly \<Rightarrow> AddDate t 0 0 (7 * interval)
      | Monthly \<Rightarrow> AddDate t 0 interval 0
      | Yearly \<Rightarrow> AddDate t interval 0 0)"

definition interval_of :: "RRule \<Rightarrow> int" where
  "interval_of r = (if Interval r = 0 then 1 else Interval r)"

definition until_set :: "RRule \<Rightarrow> bool" where
  "until_set r = (t_abs (Until r) \<noteq> 0)"

definition weekStart_of :: "RRule \<Rightarrow> Weekday" where
  "weekStart_of r = (case WeekStart r of None \<Rightarrow> Monday | Some wd \<Rightarrow> wd)"

text \<open>A 1-based position \<open>v\<close> out of \<open>n\<close> matches a signed list when it or its index from the end is listed.\<close>

definition matches_signed :: "int list \<Rightarrow> int \<Rightarrow> int \<Rightarrow> bool" where
  "matches_signed xs v n = (v \<in> set xs \<or> v - n - 1 \<in> set xs)"

definition limit_by :: "'a list \<Rightarrow> (Time \<Rightarrow> bool) \<Rightarrow> Time list \<Rightarrow> Time list" where
  "limit_by by keep tt = (if by = [] then tt else filter keep tt)"

definition month_ok :: "RRule \<Rightarrow> Time \<Rightarrow> bool" where
  "month_ok r t = (Month t \<in> set (ByMonths r))"

definition yearday_ok :: "RRule \<Rightarrow> Time \<Rightarrow> bool" where
  "yearday_ok r t = matches_signed (ByYearDays r) (YearDay0 t + 1) (days_in_year (Year t))"

definition monthday_ok :: "RRule \<Rightarrow> Time \<Rightarrow> bool" where
  "monthday_ok r t = matches_signed (ByMonthDays r) (Day t) (days_in_month (Year t) (Month t))"

definition weekday_ok :: "RRule \<Rightarrow> Time \<Rightarrow> bool" where
  "weekday_ok r t = (Weekday t \<in> set (map WD (ByWeekdays r)))"

text \<open>
  Modelled from the spec: the candidate set of the period anchored at \<open>t\<close>, by the
  matrix of BY-parts against frequencies: expansions in
  the order month, week number, year day, month day, weekday, hour, minute, second, and
  then the limit filters of the BY-parts that do not expand at this frequency. For
  \<open>Monthly\<close> and \<open>Yearly\<close> the weekdays expand within the month or year, and together with
  \<open>byMonthDay\<close> the result is the intersection.
\<close>

definition candidate_set :: "RRule \<Rightarrow> Time \<Rightarrow> Time list" where
  "candidate_set r t =
     (let f = Frequency r; ib = InvalidBehavior r;
          yearly = (f = Yearly);
          monthly = (f = Monthly \<or> f = Yearly);
          w1 = (if yearly then expandByMonths [t] ib (ByMonths r) else [t]);
          w2 = (if yearly then expandByWeekNumbers w1 (weekStart_of r) (ByWeekNumbers r) else w1);
          w3 = (if yearly then expandByYearDays w2 (ByYearDays r) else w2);
          w4 = (if monthly \<and> ByWeekdays r = [] then expandByMonthDays w3 (ByMonthDays r) else w3);
          w5 = (if f = Weekly then expandByWeekdays w4 (weekStart_of r) (ByWeekdays r)
                else if f = Monthly then
                  limit_by (ByMonthDays r) (monthday_ok r)
                    (expandMonthByWeekdays w4 ib [] (ByWeekdays r))
                else if f = Yearly then
                  limit_by (ByMonthDays r) (monthday_ok r)
                    (expandYearByWeekdays w4 ib (ByWeekdays r))
                else w4);
          w6 = (if f \<in> {Daily, Weekly, Monthly, Yearly} then expandByHours w5 (ByHours r) else w5);
          w7 = (if f \<noteq> Secondly \<and> f \<noteq> Minutely then expandByMinutes w6 (ByMinutes r) else w6);
          w8 = (if f \<noteq> Secondly then expandBySeconds w7 (BySeconds r) else w7);
          l1 = (if yearly then w8 else limit_by (ByMonths r) (month_ok r) w8);
          l2 = (if yearly then l1 else limit_by (ByYearDays r) (yearday_ok r) l1);
          l3 = (if monthly then l2 else limit_by (ByMonthDays r) (monthday_ok r) l2);
          l4 = (if f \<in> {Weekly, Monthly, Yearly} then l3
                else limit_by (ByWeekdays r) (weekday_ok r) l3);
          l5 = (if f \<in> {Daily, Weekly, Monthly, Yearly} then l4
                else limit_by (ByHours r) (\<lambda>u. Hour u \<in> set (ByHours r)) l4);
          l6 = (if f \<noteq> Secondly \<and> f \<noteq> Minutely then l5
                else limit_by (ByMinutes r) (\<lambda>u. Minute u \<in> set (ByMinutes r)) l5);
          l7 = (if f \<noteq> Secondly then l6
                else limit_by (BySeconds r) (\<lambda>u. Second u \<in> set (BySeconds r)) l6)
      in l7)"

text \<open>
  Modelled from the spec: equal instants are coalesced; of a run of equal instants in a
  sorted list the first stays.
\<close>

fun dedupe :: "Time list \<Rightarrow> Time list" where
  "dedupe [] = []"
| "dedupe [x] = [x]"
| "dedupe (x # y # zs) = (if t_abs x = t_abs y then dedupe (x # zs) else x # dedupe (y # zs))"

text \<open>
  Modelled from the spec: the generator starts \<open>Active\<close> at the period of \<open>dtstart\<close>, and
  one step is one outer iteration. A terminal generator stays as it is. A period past
  \<open>until\<close> drains the generator. Otherwise the period's candidates are sorted,
  deduplicated and projected; those before \<open>dtstart\<close>, after \<open>until\<close> or already yielded
  are dropped; the rest is yielded in order, as far as the count allows; and the period
  advances by \<open>interval\<close> units of the frequency. \<open>generate r n\<close> is the generator after
  \<open>n\<close> outer iterations, and \<open>All\<close> of a single rule returns what it has yielded, cut at
  the limit when the limit is not 0.
\<close>

definition gen_start :: "RRule \<Rightarrow> Generator" where
  "gen_start r = \<lparr>period = Dtstart r, yielded = [], empties = 0, status = Active\<rparr>"

definition gen_step :: "RRule \<Rightarrow> Generator \<Rightarrow> Generator" where
  "gen_step r g =
     (if status g \<noteq> Active then g
      else if until_set r \<and> After (period g) (Until r) then g\<lparr>status := Drained\<rparr>
      else
        (let cands = candidate_set r (period g);
             sorted = dedupe (sort_key t_abs cands);
             proj = (if BySetPos r = [] then sorted else project_setpos (BySetPos r) sorted);
             kept = filter (\<lambda>t. \<not> Before t (Dtstart r) \<and> \<not> (until_set r \<and> After t (Until r)) \<and>
                                  t_abs t \<notin> set (map t_abs (yielded g))) proj;
             out = (if Count r = 0 then kept else take (unat (Count r) - length (yielded g)) kept);
             ys = yielded g @ out;
             n = (if out = [] then empties g + 1 else 0)
         in \<lparr>period = step (period g) (Frequency r) (interval_of r),
             yielded = ys, empties = n,
             status = (if Count r \<noteq> 0 \<and> unat (Count r) \<le> length ys then Drained
                       else if 10000 \<le> n then Failed else Active)\<rparr>))"

definition generate :: "RRule \<Rightarrow> nat \<Rightarrow> Generator" where
  "generate r n = (gen_step r ^^ n) (gen_start r)"

definition All_rrule :: "RRule \<Rightarrow> nat \<Rightarrow> nat \<Rightarrow> Time list" where
  "All_rrule r limit n =
     (let ys = yielded (generate r n) in if limit = 0 then ys else take limit ys)"

text \<open>The test case "monthly by weekday": \<open>FREQ=MONTHLY;COUNT=3;BYDAY=1TU\<close> anchored at \<open>now\<close>.\<close>

definition first_tuesdays :: RRule where
  "first_tuesdays = zero_RRule\<lparr>Frequency := Monthly, Count := 3,
     Dtstart := now, ByWeekdays := [\<lparr>N = 1, WD = Tuesday\<rparr>]\<rparr>"


text \<open>
  The tests compare instants in their RFC 3339 rendering, which shows the civil fields down
  to the second and the zone, and no fraction of a second.
\<close>

definition rfc_fields :: "Time \<Rightarrow> int \<times> int \<times> int \<times> int \<times> int \<times> int \<times> Location" where
  "rfc_fields t = (Year t, Month t, Day t, Hour t, Minute t, Second t, Location t)"

definition rfcAll :: "Time list \<Rightarrow> (int \<times> int \<times> int \<times> int \<times> int \<times> int \<times> Location) list" where
  "rfcAll tt = map rfc_fields tt"

section \<open>Loops that append\<close>

lemma foldl_append_one: "foldl (\<lambda>e x. e @ [f x]) e xs = e @ map f xs"
  by (induction xs arbitrary: e) simp_all

lemma foldl_append_many: "foldl (\<lambda>e x. e @ f x) e xs = e @ concat (map f xs)"
  by (induction xs arbitrary: e) simp_all

section \<open>Shifting an instant by whole days\<close>

lemma Month_range: "1 \<le> Month t \<and> Month t \<le> 12"
  by (simp add: Month_def month_of_yday_def Let_def)

lemma clock_split: "Hour t * 3600 + Minute t * 60 + Second t = abs_sec t mod 86400"
proof -
  define s where "s = abs_sec t"
  have a: "s mod 86400 = (s mod 86400) div 3600 * 3600 + (s mod 86400) mod 3600"
    by (rule div_mult_mod_eq [symmetric])
  have b: "(s mod 86400) mod 3600 = s mod 3600"
    by (rule mod_mod_cancel) simp
  have c: "s mod 3600 = (s mod 3600) div 60 * 60 + (s mod 3600) mod 60"
    by (rule div_mult_mod_eq [symmetric])
  have d: "(s mod 3600) mod 60 = s mod 60"
    by (rule mod_mod_cancel) simp
  from a b c d show ?thesis
    unfolding Hour_def Minute_def Second_def s_def [symmetric] by linarith
qed

lemma Date_same_month:
  assumes "1 \<le> m" "m \<le> 12"
  shows "t_abs (Date y m d h mi s ns l) =
     ((days_before_year y + days_before_month y m + (d - 1)) * 86400 + h * 3600 + mi * 60 + s) * 1000000000 + ns"
proof -
  from assms have "(m - 1) div 12 = 0" "(m - 1) mod 12 + 1 = m" by auto
  then show ?thesis by (simp add: Date_def Let_def)
qed

lemma abs_days_recompose:
  "days_before_year (Year t) + days_before_month (Year t) (Month t) + (Day t + k - 1) = abs_days t + k"
  by (simp add: Day_def YearDay0_def)

lemma t_abs_split: "t_abs t = (abs_days t * 86400 + abs_sec t mod 86400) * 1000000000 + Nanosecond t"
proof -
  have "abs_sec t = abs_days t * 86400 + abs_sec t mod 86400"
    unfolding abs_days_def by (rule div_mult_mod_eq [symmetric])
  moreover have "t_abs t = abs_sec t * 1000000000 + Nanosecond t"
    unfolding abs_sec_def Nanosecond_def by (rule div_mult_mod_eq [symmetric])
  ultimately show ?thesis by simp
qed

lemma t_abs_AddDate_days: "t_abs (AddDate t 0 0 k) = t_abs t + k * 86400000000000"
proof -
  have "t_abs (AddDate t 0 0 k) =
      ((abs_days t + k) * 86400 + Hour t * 3600 + Minute t * 60 + Second t) * 1000000000 + Nanosecond t"
    using Month_range [of t] abs_days_recompose [of t k]
    by (simp add: AddDate_def Date_same_month)
  also have "\<dots> = ((abs_days t + k) * 86400 + abs_sec t mod 86400) * 1000000000 + Nanosecond t"
    using clock_split [of t] by simp
  also have "\<dots> = t_abs t + k * 86400000000000"
    using t_abs_split [of t] by (simp add: algebra_simps)
  finally show ?thesis .
qed

lemma t_loc_AddDate: "t_loc (AddDate t y m d) = t_loc t"
  by (simp add: AddDate_def Date_def Let_def Location_def)

lemma abs_days_AddDate_days: "abs_days (AddDate t 0 0 k) = abs_days t + k"
proof -
  have "(t_abs t + (k * 86400) * 1000000000) div 1000000000 = t_abs t div 1000000000 + k * 86400"
    by simp
  then have "abs_sec (AddDate t 0 0 k) = abs_sec t + k * 86400"
    by (simp add: abs_sec_def t_abs_AddDate_days)
  moreover have "(abs_sec t + k * 86400) div 86400 = abs_sec t div 86400 + k"
    by simp
  ultimately show ?thesis by (simp add: abs_days_def)
qed

lemma weekday_of_num: "weekday_of (weekday_num w) = w"
  by (cases w) (simp_all add: weekday_of_def)

lemma weekday_num_range: "0 \<le> weekday_num w \<and> weekday_num w < 7"
  by (cases w) simp_all

lemma weekday_num_of: "weekday_num (weekday_of n) = n mod 7"
proof -
  have "0 \<le> n mod 7" "n mod 7 < 7" by simp_all
  then consider "n mod 7 = 0" | "n mod 7 = 1" | "n mod 7 = 2" | "n mod 7 = 3"
    | "n mod 7 = 4" | "n mod 7 = 5" | "n mod 7 = 6"
    by linarith
  then show ?thesis by cases (simp_all add: weekday_of_def)
qed

lemma weekday_num_inj: "weekday_num a = weekday_num b \<Longrightarrow> a = b"
  by (metis weekday_of_num)

lemma Weekday_AddDate_days:
  "weekday_num (Weekday (AddDate t 0 0 k)) = (weekday_num (Weekday t) + k) mod 7"
proof -
  have "(abs_days t + k + 1) mod 7 = ((abs_days t + 1) mod 7 + k) mod 7"
    by (simp add: mod_simps algebra_simps)
  then show ?thesis
    by (simp add: Weekday_def weekday_num_of abs_days_AddDate_days)
qed

lemma expandByWeekdays_concat:
  "weekdays \<noteq> [] \<Longrightarrow> expandByWeekdays tt ws weekdays =
     concat (map (\<lambda>t. map (\<lambda>q. forwardToWeekday (backToWeekday t ws) (WD q)) weekdays) tt)"
  by (simp add: expandByWeekdays_def Let_def foldl_append_one foldl_append_many [where e = "[]", simplified])

lemma forwardToWeekday_lands: "Weekday (forwardToWeekday t wd) = wd"
proof -
  have "weekday_num (Weekday (forwardToWeekday t wd)) = weekday_num wd"
    using weekday_num_range [of wd]
    by (simp add: forwardToWeekday_def Weekday_AddDate_days mod_simps)
  then show ?thesis by (rule weekday_num_inj)
qed

lemma backToWeekday_lands: "Weekday (backToWeekday t wd) = wd"
proof -
  have "weekday_num (Weekday (backToWeekday t wd)) = weekday_num wd"
    using weekday_num_range [of wd]
    by (simp add: backToWeekday_def Weekday_AddDate_days mod_simps)
  then show ?thesis by (rule weekday_num_inj)
qed

lemma mod7_shift: "(w + j) mod 7 = v \<Longrightarrow> ((j::int) - (v - w)) mod 7 = 0"
  by presburger

lemma mod7_least: "0 \<le> (j::int) \<Longrightarrow> (j - d) mod 7 = 0 \<Longrightarrow> d mod 7 \<le> j"
  by presburger

lemma mod7_greatest: "(j::int) \<le> 0 \<Longrightarrow> (j + d) mod 7 = 0 \<Longrightarrow> j \<le> - (d mod 7)"
  by presburger

lemma forward_minimal:
  assumes "0 \<le> j" "Weekday (AddDate t 0 0 j) = wd"
  shows "(weekday_num wd - weekday_num (Weekday t)) mod 7 \<le> j"
proof -
  have "(weekday_num (Weekday t) + j) mod 7 = weekday_num wd"
    using assms(2) Weekday_AddDate_days [of t j] by simp
  then have "(j - (weekday_num wd - weekday_num (Weekday t))) mod 7 = 0"
    by (rule mod7_shift)
  with assms(1) show ?thesis by (rule mod7_least)
qed

lemma back_maximal:
  assumes "j \<le> 0" "Weekday (AddDate t 0 0 j) = wd"
  shows "j \<le> - ((weekday_num (Weekday t) - weekday_num wd) mod 7)"
proof -
  have "(weekday_num (Weekday t) + j) mod 7 = weekday_num wd"
    using assms(2) Weekday_AddDate_days [of t j] by simp
  then have "(j - (weekday_num wd - weekday_num (Weekday t))) mod 7 = 0"
    by (rule mod7_shift)
  then have "(j + (weekday_num (Weekday t) - weekday_num wd)) mod 7 = 0"
    by (simp add: algebra_simps)
  with assms(1) show ?thesis by (rule mod7_greatest)
qed

lemma AddDate_days_value:
  "AddDate t 0 0 k = \<lparr>t_abs = t_abs t + k * 86400000000000, t_loc = t_loc t\<rparr>"
  by (simp add: t_abs_AddDate_days t_loc_AddDate)

lemma expandByWeekNumbers_concat:
  "weekNumbers \<noteq> [] \<Longrightarrow> expandByWeekNumbers tt ws weekNumbers =
     concat (map (\<lambda>t. map (\<lambda>w. AddDate (week_anchor t) 0 0 ((w - 1) * 7)) weekNumbers) tt)"
  by (simp add: expandByWeekNumbers_def week_anchor_def Let_def foldl_append_one
      foldl_append_many [where e = "[]", simplified])

section \<open>An empty BY-part\<close>

text \<open>
  C9. Each of the ten expansion functions returns its input list unchanged when its
  BY-part list is empty.
\<close>

theorem expand_empty_identity:
  "expandBySeconds tt [] = tt \<and> expandByMinutes tt [] = tt \<and> expandByHours tt [] = tt \<and>
   expandByWeekdays tt ws [] = tt \<and> expandByMonthDays tt [] = tt \<and>
   expandByYearDays tt [] = tt \<and> expandByWeekNumbers tt ws [] = tt \<and>
   expandByMonths tt ib [] = tt \<and> expandMonthByWeekdays tt ib sp [] = tt \<and>
   expandYearByWeekdays tt ib [] = tt"
  by (simp add: expandBySeconds_def expandByMinutes_def expandByHours_def
      expandByWeekdays_def expandByMonthDays_def expandByYearDays_def
      expandByWeekNumbers_def expandByMonths_def expandMonthByWeekdays_def
      expandYearByWeekdays_def)

section \<open>Evaluating instants\<close>

lemmas civil_eval = abs_sec_def abs_days_def year_of_days_def month_of_yday_def
  Year_def YearDay0_def Month_def Day_def Hour_def Minute_def Second_def Nanosecond_def
  Location_def Weekday_def weekday_of_def isLeap_def leap_days_def
  days_before_year_def daysBefore_def days_before_month_def days_in_month_def

lemmas date_eval = Date_def isLeap_def leap_days_def days_before_year_def daysBefore_def
  days_before_month_def

lemma now_value: "now = \<lparr>t_abs = 63670784887000000006, t_loc = ''UTC''\<rparr>"
  by (simp add: now_def date_eval)

section \<open>Weekly expansion by weekday\<close>

text \<open>
  C4. For a non-empty list of qualified weekdays, any week start \<open>ws\<close> and any input
  list, \<open>expandByWeekdays\<close> yields, for each input instant \<open>t\<close> and each listed
  qualified weekday in list order, \<open>t\<close> moved back to \<open>ws\<close> and then forward to the
  listed weekday. The ordinals are ignored: two lists with the same weekdays give the
  same output. Moving back is the largest non-positive shift in days that lands on the
  weekday, moving forward the smallest non-negative one.
\<close>

theorem expandByWeekdays_spec:
  assumes "weekdays \<noteq> []"
  shows "expandByWeekdays tt ws weekdays =
           concat (map (\<lambda>t. map (\<lambda>q. forwardToWeekday (backToWeekday t ws) (WD q)) weekdays) tt)
       \<and> (map WD weekdays' = map WD weekdays \<longrightarrow>
            expandByWeekdays tt ws weekdays' = expandByWeekdays tt ws weekdays)
       \<and> (\<exists>k. k \<le> 0 \<and> backToWeekday t ws = AddDate t 0 0 k \<and> Weekday (AddDate t 0 0 k) = ws
              \<and> (\<forall>j. j \<le> 0 \<and> Weekday (AddDate t 0 0 j) = ws \<longrightarrow> j \<le> k))
       \<and> (\<exists>k. 0 \<le> k \<and> forwardToWeekday t wd = AddDate t 0 0 k \<and> Weekday (AddDate t 0 0 k) = wd
              \<and> (\<forall>j. 0 \<le> j \<and> Weekday (AddDate t 0 0 j) = wd \<longrightarrow> k \<le> j))"
proof (intro conjI impI)
  show "expandByWeekdays tt ws weekdays =
      concat (map (\<lambda>t. map (\<lambda>q. forwardToWeekday (backToWeekday t ws) (WD q)) weekdays) tt)"
    using assms by (rule expandByWeekdays_concat)
next
  assume eq: "map WD weekdays' = map WD weekdays"
  with assms have ne: "weekdays' \<noteq> []" by auto
  have "map (\<lambda>q. forwardToWeekday u (WD q)) weekdays' = map (\<lambda>q. forwardToWeekday u (WD q)) weekdays" for u
  proof -
    have "map (\<lambda>q. forwardToWeekday u (WD q)) weekdays' = map (forwardToWeekday u) (map WD weekdays')"
      by simp
    also have "\<dots> = map (forwardToWeekday u) (map WD weekdays)" by (simp only: eq)
    finally show ?thesis by simp
  qed
  then show "expandByWeekdays tt ws weekdays' = expandByWeekdays tt ws weekdays"
    by (simp add: expandByWeekdays_concat [OF assms] expandByWeekdays_concat [OF ne])
next
  let ?k = "- ((weekday_num (Weekday t) - weekday_num ws) mod 7)"
  have "?k \<le> 0" by simp
  moreover have "backToWeekday t ws = AddDate t 0 0 ?k" by (simp add: backToWeekday_def)
  moreover have "Weekday (AddDate t 0 0 ?k) = ws"
    using backToWeekday_lands [of t ws] by (simp add: backToWeekday_def)
  moreover have "\<forall>j. j \<le> 0 \<and> Weekday (AddDate t 0 0 j) = ws \<longrightarrow> j \<le> ?k"
    using back_maximal by blast
  ultimately show "\<exists>k. k \<le> 0 \<and> backToWeekday t ws = AddDate t 0 0 k \<and> Weekday (AddDate t 0 0 k) = ws
              \<and> (\<forall>j. j \<le> 0 \<and> Weekday (AddDate t 0 0 j) = ws \<longrightarrow> j \<le> k)"
    by blast
next
  let ?k = "(weekday_num wd - weekday_num (Weekday t)) mod 7"
  have "0 \<le> ?k" by simp
  moreover have "forwardToWeekday t wd = AddDate t 0 0 ?k" by (simp add: forwardToWeekday_def)
  moreover have "Weekday (AddDate t 0 0 ?k) = wd"
    using forwardToWeekday_lands [of t wd] by (simp add: forwardToWeekday_def)
  moreover have "\<forall>j. 0 \<le> j \<and> Weekday (AddDate t 0 0 j) = wd \<longrightarrow> ?k \<le> j"
    using forward_minimal by blast
  ultimately show "\<exists>k. 0 \<le> k \<and> forwardToWeekday t wd = AddDate t 0 0 k \<and> Weekday (AddDate t 0 0 k) = wd
              \<and> (\<forall>j. 0 \<le> j \<and> Weekday (AddDate t 0 0 j) = wd \<longrightarrow> k \<le> j)"
    by blast
qed

lemma week_of_now:
  "concat (map (\<lambda>t. map (\<lambda>q. forwardToWeekday (backToWeekday t Monday) (WD q))
        [\<lparr>N = 5, WD = Tuesday\<rparr>, \<lparr>N = - 2, WD = Sunday\<rparr>]) [now])
     = [Date 2018 8 21 9 8 7 6 ''UTC'', Date 2018 8 26 9 8 7 6 ''UTC'']"
  apply (simp only: list.map concat.simps append_Nil2 append_Cons append_Nil QualifiedWeekday.simps now_value)
  apply (simp add: forwardToWeekday_def backToWeekday_def AddDate_days_value
      Weekday_def abs_days_def abs_sec_def weekday_of_def date_eval cong: let_weak_cong)
  done

theorem expandByWeekdays_spec_witness:
  "expandByWeekdays [now] Monday [\<lparr>N = 5, WD = Tuesday\<rparr>, \<lparr>N = - 2, WD = Sunday\<rparr>]
     = [Date 2018 8 21 9 8 7 6 ''UTC'', Date 2018 8 26 9 8 7 6 ''UTC'']
   \<and> expandByWeekdays [now] Monday [\<lparr>N = 0, WD = Tuesday\<rparr>, \<lparr>N = 0, WD = Sunday\<rparr>]
     = expandByWeekdays [now] Monday [\<lparr>N = 5, WD = Tuesday\<rparr>, \<lparr>N = - 2, WD = Sunday\<rparr>]"
proof -
  have ne: "[\<lparr>N = 5, WD = Tuesday\<rparr>, \<lparr>N = - 2, WD = Sunday\<rparr>] \<noteq> []" by simp
  have eq: "map WD [\<lparr>N = 0, WD = Tuesday\<rparr>, \<lparr>N = 0, WD = Sunday\<rparr>]
          = map WD [\<lparr>N = 5, WD = Tuesday\<rparr>, \<lparr>N = - 2, WD = Sunday\<rparr>]" by simp
  from expandByWeekdays_spec [OF ne, of "[now]" Monday
      "[\<lparr>N = 0, WD = Tuesday\<rparr>, \<lparr>N = 0, WD = Sunday\<rparr>]" now Tuesday] eq week_of_now
  show ?thesis by (simp only: simp_thms)
qed

section \<open>Expansion by week number\<close>

text \<open>
  C8. The output of \<open>expandByWeekNumbers\<close> is the same for any two week-start
  arguments. For a non-empty week-number list it is, for each input instant \<open>t\<close> and
  each week number \<open>w\<close>, the anchor of \<open>t\<close> (January 1 of \<open>t\<close>'s year advanced to
  \<open>t\<close>'s own weekday) plus \<open>(w - 1) * 7\<close> days.
\<close>

theorem expandByWeekNumbers_ignores_weekStarts:
  "expandByWeekNumbers tt ws weekNumbers = expandByWeekNumbers tt ws' weekNumbers
   \<and> (weekNumbers \<noteq> [] \<longrightarrow>
        expandByWeekNumbers tt ws weekNumbers =
          concat (map (\<lambda>t. map (\<lambda>w. AddDate (week_anchor t) 0 0 ((w - 1) * 7)) weekNumbers) tt)
      \<and> map t_abs (expandByWeekNumbers tt ws weekNumbers) =
          concat (map (\<lambda>t. map (\<lambda>w. t_abs (week_anchor t) + (w - 1) * 7 * 86400000000000)
                     weekNumbers) tt))"
proof (intro conjI impI)
  show "expandByWeekNumbers tt ws weekNumbers = expandByWeekNumbers tt ws' weekNumbers"
    by (simp add: expandByWeekNumbers_def)
next
  assume "weekNumbers \<noteq> []"
  then show "expandByWeekNumbers tt ws weekNumbers =
      concat (map (\<lambda>t. map (\<lambda>w. AddDate (week_anchor t) 0 0 ((w - 1) * 7)) weekNumbers) tt)"
    by (rule expandByWeekNumbers_concat)
next
  assume ne: "weekNumbers \<noteq> []"
  show "map t_abs (expandByWeekNumbers tt ws weekNumbers) =
      concat (map (\<lambda>t. map (\<lambda>w. t_abs (week_anchor t) + (w - 1) * 7 * 86400000000000)
                 weekNumbers) tt)"
    by (simp add: expandByWeekNumbers_concat [OF ne] map_concat comp_def t_abs_AddDate_days)
qed

lemma now_civil:
  "Year now = 2018 \<and> Month now = 8 \<and> Day now = 25 \<and> Hour now = 9 \<and> Minute now = 8 \<and>
   Second now = 7 \<and> Nanosecond now = 6 \<and> Location now = ''UTC'' \<and> Weekday now = Saturday"
  by (simp add: now_value civil_eval cong: let_weak_cong)

lemma week_anchor_now: "week_anchor now = Date 2018 1 6 9 8 7 6 ''UTC''"
  apply (simp only: week_anchor_def now_civil)
  apply (simp add: forwardToWeekday_def AddDate_days_value
      Weekday_def abs_days_def abs_sec_def weekday_of_def date_eval cong: let_weak_cong)
  done

theorem expandByWeekNumbers_ignores_weekStarts_witness:
  "expandByWeekNumbers [now] Monday [1, 34] = expandByWeekNumbers [now] Sunday [1, 34]
   \<and> expandByWeekNumbers [now] Sunday [1, 34] =
       [Date 2018 1 6 9 8 7 6 ''UTC'', Date 2018 8 25 9 8 7 6 ''UTC'']"
proof -
  have ne: "[1, 34] \<noteq> ([] :: int list)" by simp
  have ev: "concat (map (\<lambda>t. map (\<lambda>w. AddDate (week_anchor t) 0 0 ((w - 1) * 7)) [1, 34]) [now])
      = [Date 2018 1 6 9 8 7 6 ''UTC'', Date 2018 8 25 9 8 7 6 ''UTC'']"
    apply (simp only: list.map concat.simps append_Nil2 append_Cons append_Nil week_anchor_now)
    apply (simp add: AddDate_days_value date_eval)
    done
  from expandByWeekNumbers_ignores_weekStarts [of "[now]" Monday "[1, 34]" Sunday]
       expandByWeekNumbers_ignores_weekStarts [of "[now]" Sunday "[1, 34]" Sunday] ne ev
  show ?thesis by (simp only: simp_thms)
qed

section \<open>Expansion by month and the invalid-day policy\<close>

lemma jan31_value: "jan31 = \<lparr>t_abs = 63652986487000000000, t_loc = ''UTC''\<rparr>"
  by (simp add: jan31_def date_eval)

lemma jan31_civil:
  "Year jan31 = 2018 \<and> Month jan31 = 1 \<and> Day jan31 = 31 \<and> Hour jan31 = 9 \<and> Minute jan31 = 8 \<and>
   Second jan31 = 7 \<and> Nanosecond jan31 = 0 \<and> Location jan31 = ''UTC''"
  by (simp add: jan31_value civil_eval cong: let_weak_cong)

lemma feb31_month: "Month (Date 2018 2 31 9 8 7 0 ''UTC'') = 3"
proof -
  have "Date 2018 2 31 9 8 7 0 ''UTC'' = \<lparr>t_abs = 63655664887000000000, t_loc = ''UTC''\<rparr>"
    by (simp add: date_eval)
  then show ?thesis by (simp add: civil_eval cong: let_weak_cong)
qed

text \<open>
  C1. The claim is that \<open>expandByMonths\<close>, when \<open>t\<close>'s day does not exist in the
  target month \<open>m\<close>, gives the last day of \<open>m\<close> under \<open>PrevInvalid\<close> and the first
  day of the month after \<open>m\<close> under \<open>NextInvalid\<close>. The code builds both replacements
  from \<open>t.Month() + 1\<close> instead of \<open>m\<close>, and \<open>PrevInvalid\<close> with day \<open>-1\<close>: for
  January 31 placed into February it yields January 30 and February 1, not February 28
  and March 1. \<open>OmitInvalid\<close> drops the candidate, as claimed.
\<close>

theorem expandByMonths_invalid_day:
  "expandByMonths [jan31] PrevInvalid [2] = [Date 2018 1 30 9 8 7 0 ''UTC'']
   \<and> expandByMonths [jan31] NextInvalid [2] = [Date 2018 2 1 9 8 7 0 ''UTC'']
   \<and> expandByMonths [jan31] OmitInvalid [2] = []
   \<and> Date 2018 1 30 9 8 7 0 ''UTC'' \<noteq> Date 2018 2 28 9 8 7 0 ''UTC''
   \<and> Date 2018 2 1 9 8 7 0 ''UTC'' \<noteq> Date 2018 3 1 9 8 7 0 ''UTC''"
proof -
  have a: "expandByMonths [jan31] ib [2] =
      (case ib of PrevInvalid \<Rightarrow> [Date 2018 (1 + 1) (- 1) 9 8 7 0 ''UTC'']
         | NextInvalid \<Rightarrow> [Date 2018 (1 + 1) 1 9 8 7 0 ''UTC''] | OmitInvalid \<Rightarrow> [])" for ib
    unfolding expandByMonths_def
    by (simp only: foldl.simps list.size jan31_civil feb31_month Let_def)
       (simp split: InvalidBehavior.split)
  show ?thesis
    by (simp add: a date_eval)
qed

section \<open>The scanner and the segments of a string\<close>

lemma Split_nonempty: "Split s d \<noteq> []"
  by (induction s) (auto split: list.split)

lemma trim_last_Cons: "ps \<noteq> [] \<Longrightarrow> trim_last (p # ps) = p # trim_last ps"
  by (simp add: trim_last_def)

lemma trim_last_single: "trim_last [p] = (if p = [] then [] else [p])"
  by (simp add: trim_last_def)

lemma scan_Split:
  assumes "length acc + length (hd (Split s d)) < MaxScanTokenSize"
    and "\<forall>p \<in> set (tl (Split s d)). length p < MaxScanTokenSize"
  shows "scan d acc s = trim_last ((rev acc @ hd (Split s d)) # tl (Split s d))"
  using assms
proof (induction s arbitrary: acc)
  case Nil
  then show ?case by (simp add: trim_last_single)
next
  case (Cons c cs)
  obtain p ps where sp: "Split cs d = p # ps"
    using Split_nonempty [of cs d] by (cases "Split cs d") auto
  show ?case
  proof (cases "c = d")
    case True
    have "scan d [] cs = trim_last ((rev [] @ hd (Split cs d)) # tl (Split cs d))"
      using Cons.prems True sp by (intro Cons.IH) auto
    then show ?thesis using True sp by (simp add: trim_last_Cons)
  next
    case False
    have "scan d (c # acc) cs = trim_last ((rev (c # acc) @ hd (Split cs d)) # tl (Split cs d))"
      using Cons.prems False sp by (intro Cons.IH) auto
    moreover have "\<not> MaxScanTokenSize \<le> length acc + 1"
      using Cons.prems False sp by auto
    ultimately show ?thesis using False sp by simp
  qed
qed

lemma scan_segments:
  assumes "\<forall>p \<in> set (Split s d). length p < MaxScanTokenSize"
  shows "scan d [] s = trim_last (Split s d)"
proof -
  obtain p ps where sp: "Split s d = p # ps"
    using Split_nonempty [of s d] by (cases "Split s d") auto
  with assms have "scan d [] s = trim_last ((rev [] @ hd (Split s d)) # tl (Split s d))"
    by (intro scan_Split) auto
  with sp show ?thesis by simp
qed

lemma in_trim_last: "p \<in> set ps \<Longrightarrow> p \<noteq> [] \<Longrightarrow> p \<in> set (trim_last ps)"
  by (cases ps rule: rev_cases) (auto simp: trim_last_def)

lemma scan_overrun:
  "c \<noteq> d \<Longrightarrow> MaxScanTokenSize \<le> length acc + n \<Longrightarrow> length acc < MaxScanTokenSize \<Longrightarrow>
   scan d acc (replicate n c @ rest) = []"
proof (induction n arbitrary: acc)
  case 0
  then show ?case by simp
next
  case (Suc n)
  show ?case
  proof (cases "MaxScanTokenSize \<le> length acc + 1")
    case True
    with Suc.prems show ?thesis by simp
  next
    case False
    then have "scan d (c # acc) (replicate n c @ rest) = []"
      using Suc.prems by (intro Suc.IH) auto
    with False Suc.prems show ?thesis by simp
  qed
qed

lemma parse_segments_error:
  "seg \<in> set segs \<Longrightarrow> (\<And>rr. isl (parse_segment ext rr seg)) \<Longrightarrow>
   snd (parse_segments ext rrule segs) \<noteq> None"
proof (induction segs arbitrary: rrule)
  case Nil
  then show ?case by simp
next
  case (Cons s segs)
  show ?case
  proof (cases "parse_segment ext rrule s")
    case (Inl e)
    then show ?thesis by simp
  next
    case (Inr rr')
    with Cons.prems(2) [of rrule] have "s \<noteq> seg" by auto
    with Cons.prems have "seg \<in> set segs" by auto
    then have "snd (parse_segments ext rr' segs) \<noteq> None"
      using Cons.prems(2) by (rule Cons.IH)
    with Inr show ?thesis by simp
  qed
qed

lemma takeWhile_key: "d \<notin> set k \<Longrightarrow> takeWhile (\<lambda>c. c \<noteq> d) (k @ d # v) = k"
  by (induction k) auto

lemma dropWhile_key: "d \<notin> set k \<Longrightarrow> dropWhile (\<lambda>c. c \<noteq> d) (k @ d # v) = d # v"
  by (induction k) auto

lemma SplitN2_key_value:
  "CHR ''='' \<notin> set k \<Longrightarrow> SplitN2 (k @ CHR ''='' # v) (CHR ''='') = [k, v]"
  by (simp add: SplitN2_def takeWhile_key dropWhile_key)

section \<open>Keys of an RRULE body\<close>

lemma ascii_upper_ascii: "is_ascii (ascii_upper c) \<Longrightarrow> is_ascii c"
  by (auto simp: is_ascii_def ascii_upper_def split: if_splits)

lemma ascii_upper_idem: "ascii_upper (ascii_upper c) = ascii_upper c"
  by (auto simp: ascii_upper_def)

lemma casing_ascii:
  assumes "map ascii_upper k = K" "list_all is_ascii K"
  shows "list_all is_ascii k"
  using assms by (induction k arbitrary: K) (auto dest: ascii_upper_ascii)

lemma ToUpper_casing:
  assumes "map ascii_upper k = K" "list_all is_ascii K"
  shows "ToUpper ext k = K" "ToUpper ext K = K"
proof -
  show "ToUpper ext k = K"
    using casing_ascii [OF assms] assms(1) by (simp add: ToUpper_def)
  have "map ascii_upper K = K"
    using assms(1) by (auto simp: ascii_upper_idem)
  with assms(2) show "ToUpper ext K = K" by (simp add: ToUpper_def)
qed

lemma supported_ascii: "K \<in> set supported_keys \<Longrightarrow> list_all is_ascii K \<and> CHR ''='' \<notin> set K"
  by (auto simp: supported_keys_def is_ascii_def)

lemma casing_no_eq:
  assumes "map ascii_upper k = K" "CHR ''='' \<notin> set K"
  shows "CHR ''='' \<notin> set k"
proof
  assume "CHR ''='' \<in> set k"
  then have "ascii_upper (CHR ''='') \<in> set (map ascii_upper k)" by (simp add: image_iff) blast
  then show False using assms by (simp add: ascii_upper_def)
qed

lemma parse_segment_dispatch:
  assumes "CHR ''='' \<notin> set k"
  shows "parse_segment ext rr (k @ CHR ''='' # v) = apply_directive ext rr k v (k @ CHR ''='' # v)"
  unfolding parse_segment_def SplitN2_key_value [OF assms] by simp

lemma unknown_key_error:
  assumes "CHR ''='' \<notin> set k" "ToUpper ext k \<notin> set supported_keys"
  shows "parse_segment ext rr (k @ CHR ''='' # v) = Inl (UnsupportedPart k)"
  using assms(2) unfolding parse_segment_dispatch [OF assms(1)]
  by (simp add: apply_directive_def supported_keys_def Let_def)

lemma casing_same_segment:
  assumes "K \<in> set supported_keys" "map ascii_upper k = K" "K \<noteq> ''UNTIL''"
  shows "parse_segment ext rr (k @ CHR ''='' # v) = parse_segment ext rr (K @ CHR ''='' # v)"
proof -
  from supported_ascii [OF assms(1)] have a: "list_all is_ascii K" and e: "CHR ''='' \<notin> set K"
    by simp_all
  have ek: "CHR ''='' \<notin> set k" using assms(2) e by (rule casing_no_eq)
  have u: "ToUpper ext k = K" "ToUpper ext K = K" using assms(2) a by (rule ToUpper_casing)+
  show ?thesis
    unfolding parse_segment_dispatch [OF ek] parse_segment_dispatch [OF e]
    using assms(1,3) by (auto simp add: apply_directive_def u Let_def supported_keys_def)
qed

lemma casing_until:
  assumes "map ascii_upper k = ''UNTIL''"
  shows "parse_segment ext rr (k @ CHR ''='' # v) =
       store (parseTime ext (k @ CHR ''='' # v) None)
         (\<lambda>(t, floating). rr\<lparr>Until := t, UntilFloating := floating\<rparr>)"
proof -
  have a: "list_all is_ascii ''UNTIL''" and e: "CHR ''='' \<notin> set ''UNTIL''"
    by (simp_all add: is_ascii_def)
  have ek: "CHR ''='' \<notin> set k" using assms e by (rule casing_no_eq)
  have u: "ToUpper ext k = ''UNTIL''" using assms a by (rule ToUpper_casing(1))
  show ?thesis unfolding parse_segment_dispatch [OF ek] by (simp add: apply_directive_def u Let_def)
qed

text \<open>
  Within the scanner's token limit: for an RRULE body whose segments are each shorter than
  65536 bytes, \<open>ParseRRule\<close> returns an error whenever some \<open>KEY=VALUE\<close> segment has a
  key that, upper-cased, is not one of the fourteen supported keys. Any casing of a
  supported key other than \<open>UNTIL\<close> is handled exactly as the upper-case key, and a
  casing of \<open>UNTIL\<close> takes the \<open>UNTIL\<close> branch, which hands the whole segment to
  \<open>parseTime\<close>.
\<close>

lemma unknown_key_rejected:
  assumes "\<forall>p \<in> set (Split str (CHR '';'')). length p < MaxScanTokenSize"
  shows "(k @ CHR ''='' # v \<in> set (Split str (CHR '';'')) \<and> CHR ''='' \<notin> set k \<and>
          ToUpper ext k \<notin> set supported_keys \<longrightarrow> snd (ParseRRule ext str) \<noteq> None)
       \<and> (K \<in> set supported_keys \<and> map ascii_upper k' = K \<and> K \<noteq> ''UNTIL'' \<longrightarrow>
            parse_segment ext rr (k' @ CHR ''='' # v') = parse_segment ext rr (K @ CHR ''='' # v'))
       \<and> (map ascii_upper k' = ''UNTIL'' \<longrightarrow>
            parse_segment ext rr (k' @ CHR ''='' # v') =
              store (parseTime ext (k' @ CHR ''='' # v') None)
                (\<lambda>(t, floating). rr\<lparr>Until := t, UntilFloating := floating\<rparr>))"
proof (intro conjI impI)
  assume h: "k @ CHR ''='' # v \<in> set (Split str (CHR '';'')) \<and> CHR ''='' \<notin> set k \<and>
          ToUpper ext k \<notin> set supported_keys"
  have "scan (CHR '';'') [] str = trim_last (Split str (CHR '';''))"
    using assms by (rule scan_segments)
  moreover have "k @ CHR ''='' # v \<in> set (trim_last (Split str (CHR '';'')))"
    using h by (intro in_trim_last) auto
  ultimately have "k @ CHR ''='' # v \<in> set (scan (CHR '';'') [] str)" by simp
  moreover have "isl (parse_segment ext rr (k @ CHR ''='' # v))" for rr
    using h by (simp add: unknown_key_error)
  ultimately show "snd (ParseRRule ext str) \<noteq> None"
    unfolding ParseRRule_def by (rule parse_segments_error)
next
  assume "K \<in> set supported_keys \<and> map ascii_upper k' = K \<and> K \<noteq> ''UNTIL''"
  then show "parse_segment ext rr (k' @ CHR ''='' # v') = parse_segment ext rr (K @ CHR ''='' # v')"
    by (intro casing_same_segment) auto
next
  assume "map ascii_upper k' = ''UNTIL''"
  then show "parse_segment ext rr (k' @ CHR ''='' # v') =
              store (parseTime ext (k' @ CHR ''='' # v') None)
                (\<lambda>(t, floating). rr\<lparr>Until := t, UntilFloating := floating\<rparr>)"
    by (rule casing_until)
qed

lemmas char_eval = is_ascii_def is_digit_def ascii_upper_def ascii_lower_def char_of_eq_iff

lemma Split_no_sep: "d \<notin> set s \<Longrightarrow> Split s d = [s]"
  by (induction s) auto

lemma supported_short: "K \<in> set supported_keys \<Longrightarrow> length K \<le> 10"
  by (auto simp: supported_keys_def)

lemma long_token_ascii: "list_all is_ascii long_token"
  by (simp add: long_token_def list_all_iff is_ascii_def)

lemma unknown_key_rejected_example:
  "snd (ParseRRule example_externals ''FREQ=MONTHLY;FOO=3'') \<noteq> None
   \<and> parse_segment example_externals zero_RRule ''byDay=1TU'' =
       parse_segment example_externals zero_RRule ''BYDAY=1TU''
   \<and> parse_segment example_externals zero_RRule ''Until=20180830T000000Z'' =
       Inl (ExternalError ''Until=20180830T000000Z'')"
proof -
  have len: "\<forall>p \<in> set (Split ''FREQ=MONTHLY;FOO=3'' (CHR '';'')). length p < MaxScanTokenSize"
    by (simp add: MaxScanTokenSize_def)
  have up: "ToUpper example_externals ''FOO'' \<notin> set supported_keys"
    by (simp add: ToUpper_def char_eval supported_keys_def)
  have seg: "''FOO'' @ CHR ''='' # ''3'' \<in> set (Split ''FREQ=MONTHLY;FOO=3'' (CHR '';''))"
    by simp
  have k1: "''BYDAY'' \<in> set supported_keys" "map ascii_upper ''byDay'' = ''BYDAY''"
    by (simp_all add: supported_keys_def char_eval)
  have k2: "map ascii_upper ''Until'' = ''UNTIL''"
    by (simp add: char_eval)
  from unknown_key_rejected [OF len, of "''FOO''" "''3''" example_externals "''BYDAY''" "''byDay''"
      zero_RRule "''1TU''"] up seg k1
  have a: "snd (ParseRRule example_externals ''FREQ=MONTHLY;FOO=3'') \<noteq> None"
    and b: "parse_segment example_externals zero_RRule ''byDay=1TU'' =
       parse_segment example_externals zero_RRule ''BYDAY=1TU''"
    by simp_all
  from unknown_key_rejected [OF len, of "''FOO''" "''3''" example_externals "''BYDAY''" "''Until''"
      zero_RRule "''20180830T000000Z''"] k2
  have "parse_segment example_externals zero_RRule ''Until=20180830T000000Z'' =
      store (parseTime example_externals ''Until=20180830T000000Z'' None)
        (\<lambda>(t, floating). zero_RRule\<lparr>Until := t, UntilFloating := floating\<rparr>)"
    by simp
  then have c: "parse_segment example_externals zero_RRule ''Until=20180830T000000Z'' =
       Inl (ExternalError ''Until=20180830T000000Z'')"
    by (simp add: example_externals_def store_def)
  from a b c show ?thesis by simp
qed

section \<open>Lines of a recurrence\<close>

lemma IndexAny_None: "IndexAny_colon s = None \<longleftrightarrow> list_all (\<lambda>c. \<not> is_sep c) s"
  by (induction s) (auto simp: is_sep_def)

lemma IndexAny_Some:
  "IndexAny_colon s = Some i \<Longrightarrow>
     i < length s \<and> is_sep (s ! i) \<and> list_all (\<lambda>c. \<not> is_sep c) (take i s) \<and>
     take i s = takeWhile (\<lambda>c. \<not> is_sep c) s"
proof (induction s arbitrary: i)
  case Nil
  then show ?case by simp
next
  case (Cons c cs)
  show ?case
  proof (cases "is_sep c")
    case True
    with Cons.prems show ?thesis by (auto simp: is_sep_def)
  next
    case False
    with Cons.prems obtain j where j: "IndexAny_colon cs = Some j" "i = Suc j"
      by (auto simp: is_sep_def)
    from Cons.IH [OF j(1)] False j(2) show ?thesis
      by (auto simp: list_all_iff dest: set_takeWhileD)
  qed
qed

lemma malformed_index:
  assumes "malformed l" "IndexAny_colon l = Some i"
  shows "int (length l) - 1 = int i"
proof -
  from IndexAny_Some [OF assms(2)] have i: "i < length l" "is_sep (l ! i)" by simp_all
  then have "\<not> list_all (\<lambda>c. \<not> is_sep c) l"
    by (auto simp: list_all_length)
  with assms(1) have b: "list_all (\<lambda>c. \<not> is_sep c) (butlast l)" and ne: "l \<noteq> []"
    by (auto simp: malformed_def)
  have "\<not> i < length l - 1"
  proof
    assume "i < length l - 1"
    then have "butlast l ! i = l ! i" "i < length (butlast l)" by (simp_all add: nth_butlast)
    with b i(2) show False by (auto simp: list_all_length)
  qed
  with i(1) show ?thesis by simp
qed

lemma malformed_line_error: "malformed l \<Longrightarrow> isl (parse_line ext loc recurrence l)"
  by (auto simp: parse_line_def dest: malformed_index split: option.split)

lemma parse_lines_error:
  "l \<in> set ls \<Longrightarrow> (\<And>r. isl (parse_line ext loc r l)) \<Longrightarrow> isl (parse_lines ext loc recurrence ls)"
proof (induction ls arbitrary: recurrence)
  case Nil
  then show ?case by simp
next
  case (Cons x ls)
  show ?case
  proof (cases "parse_line ext loc recurrence x")
    case (Inl e)
    then show ?thesis by simp
  next
    case (Inr r')
    with Cons.prems(2) [of recurrence] have "x \<noteq> l" by auto
    with Cons.prems have "l \<in> set ls" by auto
    then have "isl (parse_lines ext loc r' ls)"
      using Cons.prems(2) by (rule Cons.IH)
    with Inr show ?thesis by simp
  qed
qed

lemma well_formed_index:
  assumes "\<not> malformed l"
  obtains i where "IndexAny_colon l = Some i" "int (length l) - 1 \<noteq> int i"
    "take i l = prop_name l"
proof -
  from assms have "\<not> list_all (\<lambda>c. \<not> is_sep c) l" by (simp add: malformed_def)
  then obtain i where i: "IndexAny_colon l = Some i"
    using IndexAny_None [of l] by (cases "IndexAny_colon l") auto
  from IndexAny_Some [OF i] have f: "i < length l" "is_sep (l ! i)"
    "list_all (\<lambda>c. \<not> is_sep c) (take i l)" "take i l = prop_name l"
    by (auto simp: prop_name_def list_all_iff dest: set_takeWhileD)
  have "i \<noteq> length l - 1"
  proof
    assume e: "i = length l - 1"
    with f(1) have ne: "l \<noteq> []" by auto
    then have "last l = l ! i" using e by (simp add: last_conv_nth)
    moreover have "butlast l = take i l" using e by (simp add: butlast_conv_take)
    ultimately have "malformed l" using f(2,3) ne by (simp add: malformed_def)
    with assms show False by simp
  qed
  with f(1) have "int (length l) - 1 \<noteq> int i" by auto
  with i f(4) show ?thesis by (intro that)
qed

lemma unknown_name_ignored:
  assumes "\<not> malformed l" "prop_name l \<notin> set known_names"
  shows "parse_line ext loc recurrence l = Inr recurrence"
proof -
  from assms(1) obtain i where i: "IndexAny_colon l = Some i" "int (length l) - 1 \<noteq> int i"
    "take i l = prop_name l" by (rule well_formed_index)
  with assms(2) show ?thesis
    by (simp add: parse_line_def known_names_def Let_def)
qed

lemma scan_line_first:
  assumes "d \<notin> set l" "length acc + length l < MaxScanTokenSize"
  shows "scan d acc (l @ d # post) = (rev acc @ l) # scan d [] post"
  using assms by (induction l arbitrary: acc) auto

lemma drop_unknown_line:
  assumes l: "CHR 0x0A \<notin> set l" "length l < MaxScanTokenSize"
    "\<not> malformed (dropCR l)" "prop_name (dropCR l) \<notin> set known_names"
    and pre: "pre = [] \<longrightarrow> acc = []" "pre \<noteq> [] \<longrightarrow> last pre = CHR 0x0A"
  shows "parse_lines ext loc recurrence (map dropCR (scan (CHR 0x0A) acc (pre @ l @ CHR 0x0A # post)))
       = parse_lines ext loc recurrence (map dropCR (scan (CHR 0x0A) acc (pre @ post)))"
  using pre
proof (induction pre arbitrary: acc recurrence)
  case Nil
  then have "acc = []" by simp
  then show ?case
    using l by (simp add: scan_line_first unknown_name_ignored)
next
  case (Cons c cs)
  show ?case
  proof (cases "c = CHR 0x0A")
    case True
    have "cs \<noteq> [] \<longrightarrow> last cs = CHR 0x0A" using Cons.prems by auto
    then have ih: "parse_lines ext loc r (map dropCR (scan (CHR 0x0A) [] (cs @ l @ CHR 0x0A # post)))
       = parse_lines ext loc r (map dropCR (scan (CHR 0x0A) [] (cs @ post)))" for r
      by (intro Cons.IH) auto
    show ?thesis using True by (simp add: ih split: sum.split)
  next
    case False
    with Cons.prems have ne: "cs \<noteq> []" "last cs = CHR 0x0A" by (auto split: if_splits)
    then have ih: "parse_lines ext loc recurrence (map dropCR (scan (CHR 0x0A) (c # acc) (cs @ l @ CHR 0x0A # post)))
       = parse_lines ext loc recurrence (map dropCR (scan (CHR 0x0A) (c # acc) (cs @ post)))"
      by (intro Cons.IH) auto
    show ?thesis using False by (simp add: ih)
  qed
qed

text \<open>
  Within the scanner's token limit: for an input whose lines are each shorter than 65536
  bytes, \<open>ParseRecurrence\<close> returns an error whenever some line has no \<open>:\<close> or \<open>;\<close>, or
  has the first of them as its last character. A well-formed line whose property name is
  not one of DTSTART, RRULE, EXRULE, RDATE, EXDATE leaves the recurrence unchanged, and
  removing such a line from the input does not change the result.
\<close>

lemma malformed_line_rejected:
  assumes "\<forall>p \<in> set (Split src (CHR 0x0A)). length p < MaxScanTokenSize"
  shows "(l \<in> set (lines_of src) \<and> malformed l \<longrightarrow> isl (ParseRecurrence ext src loc))
       \<and> (\<not> malformed t \<and> prop_name t \<notin> set known_names \<longrightarrow>
            parse_line ext loc recurrence t = Inr recurrence)
       \<and> (CHR 0x0A \<notin> set ln \<and> length ln < MaxScanTokenSize \<and> \<not> malformed (dropCR ln) \<and>
            prop_name (dropCR ln) \<notin> set known_names \<and> (pre = [] \<or> last pre = CHR 0x0A) \<longrightarrow>
            ParseRecurrence ext (pre @ ln @ CHR 0x0A # post) loc = ParseRecurrence ext (pre @ post) loc)"
proof (intro conjI impI)
  assume h: "l \<in> set (lines_of src) \<and> malformed l"
  have "ScanLines src = lines_of src"
    using assms by (simp add: ScanLines_def lines_of_def scan_segments)
  with h have "l \<in> set (ScanLines src)" by simp
  moreover have "isl (parse_line ext loc r l)" for r
    using h by (simp add: malformed_line_error)
  ultimately show "isl (ParseRecurrence ext src loc)"
    unfolding ParseRecurrence_def by (rule parse_lines_error)
next
  assume "\<not> malformed t \<and> prop_name t \<notin> set known_names"
  then show "parse_line ext loc recurrence t = Inr recurrence"
    by (simp add: unknown_name_ignored)
next
  assume h: "CHR 0x0A \<notin> set ln \<and> length ln < MaxScanTokenSize \<and> \<not> malformed (dropCR ln) \<and>
            prop_name (dropCR ln) \<notin> set known_names \<and> (pre = [] \<or> last pre = CHR 0x0A)"
  then have "parse_lines ext loc zero_Recurrence
        (map dropCR (scan (CHR 0x0A) [] (pre @ ln @ CHR 0x0A # post)))
      = parse_lines ext loc zero_Recurrence (map dropCR (scan (CHR 0x0A) [] (pre @ post)))"
    by (intro drop_unknown_line) auto
  then show "ParseRecurrence ext (pre @ ln @ CHR 0x0A # post) loc = ParseRecurrence ext (pre @ post) loc"
    by (simp add: ParseRecurrence_def ScanLines_def)
qed

lemma long_token_plain: "list_all (\<lambda>c. \<not> is_sep c) long_token"
  by (simp add: long_token_def list_all_iff is_sep_def)

lemma malformed_line_rejected_example:
  "isl (ParseRecurrence example_externals (''X-FOO:1'' @ CHR 0x0A # ''RRULE'') None)
   \<and> parse_line example_externals None zero_Recurrence ''X-FOO;A=b:1'' = Inr zero_Recurrence
   \<and> ParseRecurrence example_externals (''RRULE:FREQ=DAILY'' @ CHR 0x0A # ''X-FOO:1'' @ CHR 0x0A # ''EXRULE:FREQ=DAILY'') None
     = ParseRecurrence example_externals (''RRULE:FREQ=DAILY'' @ CHR 0x0A # ''EXRULE:FREQ=DAILY'') None"
proof -
  let ?src = "''X-FOO:1'' @ CHR 0x0A # ''RRULE''"
  have len: "\<forall>p \<in> set (Split ?src (CHR 0x0A)). length p < MaxScanTokenSize"
    by (simp add: MaxScanTokenSize_def)
  have l: "''RRULE'' \<in> set (lines_of ?src)" "malformed ''RRULE''"
    by (simp_all add: lines_of_def trim_last_def dropCR_def malformed_def is_sep_def)
  have t: "\<not> malformed ''X-FOO;A=b:1''" "prop_name ''X-FOO;A=b:1'' \<notin> set known_names"
    by (simp_all add: malformed_def is_sep_def prop_name_def known_names_def)
  have ln: "CHR 0x0A \<notin> set ''X-FOO:1''" "length ''X-FOO:1'' < MaxScanTokenSize"
    "\<not> malformed (dropCR ''X-FOO:1'')" "prop_name (dropCR ''X-FOO:1'') \<notin> set known_names"
    "last (''RRULE:FREQ=DAILY'' @ [CHR 0x0A]) = CHR 0x0A"
    by (simp_all add: MaxScanTokenSize_def malformed_def is_sep_def prop_name_def known_names_def dropCR_def)
  from malformed_line_rejected [OF len, of "''RRULE''" example_externals None "''X-FOO;A=b:1''"
      zero_Recurrence "''X-FOO:1''" "''RRULE:FREQ=DAILY'' @ [CHR 0x0A]" "''EXRULE:FREQ=DAILY''"]
    l t ln
  show ?thesis by simp
qed

section \<open>COUNT\<close>

lemma digits_value_digits: "digits_value n s = Some m \<Longrightarrow> list_all is_digit s"
  by (induction s arbitrary: n) (auto split: if_splits)

lemma Atoi_chars:
  assumes "Atoi v = Inr k"
  shows "\<forall>c \<in> set v. is_digit c \<or> c = CHR ''-'' \<or> c = CHR ''+''"
proof -
  let ?body = "if v \<noteq> [] \<and> (hd v = CHR ''-'' \<or> hd v = CHR ''+'') then tl v else v"
  from assms obtain n where "digits_value 0 ?body = Some n"
    by (auto simp: Atoi_def Let_def split: if_splits option.splits)
  then have "list_all is_digit ?body" by (rule digits_value_digits)
  then show ?thesis
    by (cases v) (auto simp: list_all_iff split: if_splits)
qed

lemma Atoi_no_semicolon: "Atoi v = Inr k \<Longrightarrow> CHR '';'' \<notin> set v"
  by (auto dest!: Atoi_chars simp: is_digit_def)

lemma scan_single:
  assumes "d \<notin> set s" "s \<noteq> []" "length s < MaxScanTokenSize"
  shows "scan d [] s = [s]"
proof -
  have "Split s d = [s]" using assms(1) by (rule Split_no_sep)
  moreover have "scan d [] s = trim_last (Split s d)"
    using assms(1,3) by (intro scan_segments) (simp add: Split_no_sep)
  ultimately show ?thesis using assms(2) by (simp add: trim_last_def)
qed

lemma count_segment:
  assumes "Atoi v = Inr k" "ToUpper ext key = ''COUNT''" "CHR ''='' \<notin> set key"
  shows "parse_segment ext rrule (key @ CHR ''='' # v) = Inr (rrule\<lparr>Count := word_of_int k\<rparr>)"
  using assms by (simp add: parse_segment_dispatch apply_directive_def store_def)

text \<open>
  C10. When the value of a COUNT segment parses as a negative integer \<open>k\<close>, the COUNT
  step reports no error and sets \<open>Count\<close> to \<open>uint64(k)\<close>, which is \<open>k\<close> modulo
  \<open>2 ^ 64\<close>; a body consisting of that segment alone returns the rule with this count
  together with the outcome of validation.
\<close>

theorem count_negative_wraps:
  assumes "Atoi v = Inr k" "k < 0" "ToUpper ext key = ''COUNT''" "CHR ''='' \<notin> set key"
  shows "parse_segment ext rrule (key @ CHR ''='' # v) = Inr (rrule\<lparr>Count := word_of_int k\<rparr>)
       \<and> uint (word_of_int k :: 64 word) = k mod 2 ^ 64
       \<and> (CHR '';'' \<notin> set key \<and> length (key @ CHR ''='' # v) < MaxScanTokenSize \<longrightarrow>
            ParseRRule ext (key @ CHR ''='' # v) =
              (zero_RRule\<lparr>Count := word_of_int k\<rparr>, Validate ext (zero_RRule\<lparr>Count := word_of_int k\<rparr>)))"
proof (intro conjI impI)
  show seg: "parse_segment ext rrule (key @ CHR ''='' # v) = Inr (rrule\<lparr>Count := word_of_int k\<rparr>)"
    for rrule using assms(1,3,4) by (rule count_segment)
  show "uint (word_of_int k :: 64 word) = k mod 2 ^ 64"
    by (simp add: uint_word_of_int_eq take_bit_eq_mod)
  assume h: "CHR '';'' \<notin> set key \<and> length (key @ CHR ''='' # v) < MaxScanTokenSize"
  have "CHR '';'' \<notin> set (key @ CHR ''='' # v)"
    using h Atoi_no_semicolon [OF assms(1)] by simp
  then have "scan (CHR '';'') [] (key @ CHR ''='' # v) = [key @ CHR ''='' # v]"
    using h by (intro scan_single) auto
  then show "ParseRRule ext (key @ CHR ''='' # v) =
      (zero_RRule\<lparr>Count := word_of_int k\<rparr>, Validate ext (zero_RRule\<lparr>Count := word_of_int k\<rparr>))"
    by (simp add: ParseRRule_def seg)
qed

lemma Atoi_minus_one: "Atoi ''-1'' = Inr (- 1)"
  by (simp add: Atoi_def is_digit_def)

theorem count_negative_wraps_witness:
  "parse_segment example_externals zero_RRule ''COUNT=-1'' =
       Inr (zero_RRule\<lparr>Count := 18446744073709551615\<rparr>)
   \<and> uint (word_of_int (- 1) :: 64 word) = 2 ^ 64 - 1
   \<and> ParseRRule example_externals ''count=-1'' =
       (zero_RRule\<lparr>Count := 18446744073709551615\<rparr>, None)"
proof -
  have u: "ToUpper example_externals ''COUNT'' = ''COUNT''" "ToUpper example_externals ''count'' = ''COUNT''"
    by (simp_all add: ToUpper_def char_eval)
  have w: "(word_of_int (- 1) :: 64 word) = 18446744073709551615" by simp
  from count_negative_wraps [OF Atoi_minus_one, of example_externals "''COUNT''" zero_RRule]
       count_negative_wraps [OF Atoi_minus_one, of example_externals "''count''" zero_RRule] u w
  show ?thesis
    by (simp add: MaxScanTokenSize_def example_externals_def)
qed

section \<open>BYDAY\<close>

lemma upper_lower: "ascii_upper (ascii_lower c) = ascii_upper c"
  by (auto simp: ascii_upper_def ascii_lower_def)

lemma lower_upper: "ascii_lower (ascii_upper c) = ascii_lower c"
  by (auto simp: ascii_upper_def ascii_lower_def)

lemma lower_eq_iff:
  assumes "map ascii_upper l = u" "map ascii_lower u = l"
  shows "map ascii_lower s = l \<longleftrightarrow> map ascii_upper s = u"
proof
  assume "map ascii_lower s = l"
  then have "map ascii_upper (map ascii_lower s) = u" using assms(1) by simp
  then show "map ascii_upper s = u" by (simp add: comp_def upper_lower)
next
  assume "map ascii_upper s = u"
  then have "map ascii_lower (map ascii_upper s) = l" using assms(2) by simp
  then show "map ascii_lower s = l" by (simp add: comp_def lower_upper)
qed

lemma code_iffs:
  "map ascii_lower s = ''mo'' \<longleftrightarrow> map ascii_upper s = ''MO''"
  "map ascii_lower s = ''tu'' \<longleftrightarrow> map ascii_upper s = ''TU''"
  "map ascii_lower s = ''we'' \<longleftrightarrow> map ascii_upper s = ''WE''"
  "map ascii_lower s = ''th'' \<longleftrightarrow> map ascii_upper s = ''TH''"
  "map ascii_lower s = ''fr'' \<longleftrightarrow> map ascii_upper s = ''FR''"
  "map ascii_lower s = ''sa'' \<longleftrightarrow> map ascii_upper s = ''SA''"
  "map ascii_lower s = ''su'' \<longleftrightarrow> map ascii_upper s = ''SU''"
  by (rule lower_eq_iff; simp add: char_eval)+

lemma parseWeekday_ascii:
  assumes "list_all is_ascii s"
  shows "parseWeekday ext s =
           (case weekday_code s of Some wd \<Rightarrow> Inr wd | None \<Rightarrow> Inl (InvalidWeekday s))"
  using assms
  by (simp add: parseWeekday_def ToLower_def Let_def code_iffs weekday_code_def weekday_codes_def)

lemma upper_letter:
  assumes "ascii_upper c = u" "65 \<le> (of_char u :: nat)" "(of_char u :: nat) \<le> 90"
  shows "is_ascii c \<and> \<not> is_digit c \<and> c \<noteq> CHR '','' \<and> c \<noteq> CHR ''-'' \<and> c \<noteq> CHR ''+''"
proof (cases "97 \<le> (of_char c :: nat) \<and> (of_char c :: nat) \<le> 122")
  case True
  then show ?thesis by (auto simp: is_ascii_def is_digit_def)
next
  case False
  with assms have "c = u" by (simp add: ascii_upper_def)
  with assms(2,3) show ?thesis by (auto simp: is_ascii_def is_digit_def)
qed

lemma weekday_code_upper:
  assumes "weekday_code code = Some wd"
  shows "(map ascii_upper code, wd) \<in> set weekday_codes"
  using assms unfolding weekday_code_def by (rule map_of_SomeD)

lemma code_shape:
  assumes "weekday_code code = Some wd"
  shows "list_all is_ascii code \<and> code \<noteq> [] \<and> \<not> is_digit (hd code) \<and> CHR '','' \<notin> set code
       \<and> hd code \<noteq> CHR ''-'' \<and> hd code \<noteq> CHR ''+''"
proof -
  from weekday_code_upper [OF assms] obtain a b u v where
    c: "code = [a, b]" and u: "ascii_upper a = u" "ascii_upper b = v"
    and r: "65 \<le> (of_char u :: nat)" "(of_char u :: nat) \<le> 90"
           "65 \<le> (of_char v :: nat)" "(of_char v :: nat) \<le> 90"
    by (auto simp: weekday_codes_def map_eq_Cons_conv)
  from upper_letter [OF u(1) r(1,2)] upper_letter [OF u(2) r(3,4)] c
  show ?thesis by auto
qed

lemma is_digit_ascii: "is_digit c \<Longrightarrow> is_ascii c"
  by (simp add: is_digit_def is_ascii_def)

lemma digit_run_digits:
  assumes "list_all is_digit ds" "rest = [] \<or> (is_ascii (hd rest) \<and> \<not> is_digit (hd rest))"
  shows "digit_run ext (ds @ rest) = length ds"
  using assms
proof (induction ds)
  case Nil
  then show ?case by (cases rest) auto
next
  case (Cons c cs)
  then show ?case by (simp add: is_digit_ascii)
qed

lemma digits_value_foldl:
  "list_all is_digit ds \<Longrightarrow>
   digits_value n ds = Some (foldl (\<lambda>n c. n * 10 + (int (of_char c) - 48)) n ds)"
  by (induction ds arbitrary: n) auto

lemma digits_value_decimal: "list_all is_digit ds \<Longrightarrow> digits_value 0 ds = Some (decimal ds)"
  by (simp add: digits_value_foldl decimal_def)

lemma digit_not_sign: "is_digit c \<Longrightarrow> c \<noteq> CHR ''-'' \<and> c \<noteq> CHR ''+''"
  by (auto simp: is_digit_def)

lemma Atoi_digits:
  assumes "list_all is_digit ds" "ds \<noteq> []"
  shows "Atoi ds = (if in_int_range (decimal ds) then Inr (decimal ds) else Inl (ErrRange ds))"
    and "Atoi (CHR ''+'' # ds) =
          (if in_int_range (decimal ds) then Inr (decimal ds) else Inl (ErrRange (CHR ''+'' # ds)))"
    and "Atoi (CHR ''-'' # ds) =
          (if in_int_range (- decimal ds) then Inr (- decimal ds) else Inl (ErrRange (CHR ''-'' # ds)))"
proof -
  from assms obtain c cs where ds: "ds = c # cs" "is_digit c" by (cases ds) auto
  then have ns: "hd ds \<noteq> CHR ''-''" "hd ds \<noteq> CHR ''+''" using digit_not_sign by auto
  show "Atoi ds = (if in_int_range (decimal ds) then Inr (decimal ds) else Inl (ErrRange ds))"
    using assms ns by (auto simp: Atoi_def Let_def digits_value_decimal in_int_range_def)
  show "Atoi (CHR ''+'' # ds) =
          (if in_int_range (decimal ds) then Inr (decimal ds) else Inl (ErrRange (CHR ''+'' # ds)))"
    using assms by (auto simp: Atoi_def Let_def digits_value_decimal in_int_range_def)
  show "Atoi (CHR ''-'' # ds) =
          (if in_int_range (- decimal ds) then Inr (- decimal ds) else Inl (ErrRange (CHR ''-'' # ds)))"
    using assms by (auto simp: Atoi_def Let_def digits_value_decimal in_int_range_def)
qed

lemma parse_shaped_segment:
  assumes "seg_shape s" "in_int_range (seg_ordinal s)"
  shows "parseQualifiedWeekday ext (seg_text s) = Inr (seg_value s)"
proof -
  obtain sg ds code where s: "s = (sg, ds, code)" by (cases s)
  from assms(1) s obtain wd where wd: "weekday_code code = Some wd"
    and dg: "list_all is_digit ds"
    and sh: "sg = [] \<or> ((sg = ''+'' \<or> sg = ''-'') \<and> ds \<noteq> [])"
    by (auto simp: seg_shape_def)
  from code_shape [OF wd] have cs: "list_all is_ascii code" "code \<noteq> []" "\<not> is_digit (hd code)"
    "hd code \<noteq> CHR ''-''" "hd code \<noteq> CHR ''+''" and ha: "is_ascii (hd code)"
    by (auto simp: list_all_iff)
  have pw: "parseWeekday ext code = Inr wd"
    using cs(1) wd by (simp add: parseWeekday_ascii)
  have run: "digit_run ext (ds @ code) = length ds"
    using dg ha cs(3) by (intro digit_run_digits) auto
  have val: "seg_value s = \<lparr>N = seg_ordinal s, WD = wd\<rparr>"
    using s wd by (simp add: seg_value_def)
  consider (none) "sg = []" "ds = []" | (plain) "sg = []" "ds \<noteq> []"
    | (plus) "sg = ''+''" "ds \<noteq> []" | (minus) "sg = ''-''" "ds \<noteq> []"
    using sh by auto
  then show ?thesis
  proof cases
    case none
    then show ?thesis
      using s cs pw val run
      by (simp add: parseQualifiedWeekday_def seg_text_def seg_ordinal_def decimal_def Let_def)
  next
    case plain
    then obtain c cs' where ds: "ds = c # cs'" "is_digit c" using dg by (cases ds) auto
    have o: "seg_ordinal s = decimal ds" using s plain by (simp add: seg_ordinal_def)
    have "Atoi ds = Inr (decimal ds)"
      using Atoi_digits(1) [OF dg plain(2)] assms(2) o by simp
    then show ?thesis
      using s plain ds digit_not_sign [OF ds(2)] run pw val o
      by (simp add: parseQualifiedWeekday_def seg_text_def Let_def)
  next
    case plus
    have o: "seg_ordinal s = decimal ds" using s plus by (simp add: seg_ordinal_def)
    have "Atoi (CHR ''+'' # ds) = Inr (decimal ds)"
      using Atoi_digits(2) [OF dg plus(2)] assms(2) o by simp
    then show ?thesis
      using s plus run pw val o
      by (simp add: parseQualifiedWeekday_def seg_text_def Let_def)
  next
    case minus
    have o: "seg_ordinal s = - decimal ds" using s minus by (simp add: seg_ordinal_def)
    have "Atoi (CHR ''-'' # ds) = Inr (- decimal ds)"
      using Atoi_digits(3) [OF dg minus(2)] assms(2) o by simp
    then show ?thesis
      using s minus run pw val o
      by (simp add: parseQualifiedWeekday_def seg_text_def Let_def)
  qed
qed

lemma shaped_no_comma:
  assumes "seg_shape s"
  shows "CHR '','' \<notin> set (seg_text s)"
proof -
  obtain sg ds code where s: "s = (sg, ds, code)" by (cases s)
  from assms s obtain wd where wd: "weekday_code code = Some wd"
    and dg: "list_all is_digit ds"
    and sh: "sg = [] \<or> ((sg = ''+'' \<or> sg = ''-'') \<and> ds \<noteq> [])"
    by (auto simp: seg_shape_def)
  have "CHR '','' \<notin> set ds" using dg by (auto simp: list_all_iff is_digit_def)
  moreover have "CHR '','' \<notin> set code" using code_shape [OF wd] by simp
  moreover have "CHR '','' \<notin> set sg" using sh by auto
  ultimately show ?thesis using s by (simp add: seg_text_def)
qed

lemma mapM_error: "x \<in> set xs \<Longrightarrow> isl (f x) \<Longrightarrow> isl (mapM f xs)"
  by (induction xs) (auto split: sum.splits)

lemma Split_append_sep:
  "d \<notin> set s \<Longrightarrow> Split (s @ d # rest) d = s # Split rest d"
  by (induction s) auto

lemma Split_join:
  assumes "ss \<noteq> []" "\<forall>s \<in> set ss. CHR '','' \<notin> set s"
  shows "Split (join_commas ss) (CHR '','') = ss"
  using assms
proof (induction ss rule: join_commas.induct)
  case 1
  then show ?case by simp
next
  case (2 s)
  then show ?case by (simp add: Split_no_sep)
next
  case (3 s t ts)
  then show ?case by (simp add: Split_append_sep)
qed

lemma digit_run_cases:
  "digit_run ext s = length (takeWhile is_digit s) \<or>
   (\<exists>c \<in> set (take (digit_run ext s) s). \<not> is_digit c)"
proof (induction ext s rule: digit_run.induct)
  case (1 ext)
  then show ?case by simp
next
  case (2 ext c cs)
  show ?case
  proof (cases "is_ascii c")
    case True
    with 2 show ?thesis by (cases "is_digit c") auto
  next
    case False
    then have nd: "\<not> is_digit c" using is_digit_ascii by auto
    show ?thesis
    proof (cases "unicodeDigitLen ext (c # cs) = 0")
      case True
      with False nd show ?thesis by simp
    next
      case nz: False
      then obtain m where m: "unicodeDigitLen ext (c # cs) = Suc m"
        by (cases "unicodeDigitLen ext (c # cs)") auto
      have "c \<in> set (take (digit_run ext (c # cs)) (c # cs))"
        using False m by (simp add: Let_def)
      with nd show ?thesis by blast
    qed
  qed
qed

lemma digits_value_bad: "\<exists>c \<in> set s. \<not> is_digit c \<Longrightarrow> digits_value n s = None"
  by (induction s arbitrary: n) auto

lemma Atoi_bad_body:
  assumes "\<exists>c \<in> set body. \<not> is_digit c"
  shows "isl (Atoi (CHR ''-'' # body))" "isl (Atoi (CHR ''+'' # body))"
    and "hd body \<noteq> CHR ''-'' \<Longrightarrow> hd body \<noteq> CHR ''+'' \<Longrightarrow> isl (Atoi body)"
  using assms digits_value_bad [OF assms, of 0]
  by (auto simp: Atoi_def Let_def)

lemma bad_remainder_error:
  assumes "isl (parseWeekday ext (drop (prefix_len p) p))"
  shows "isl (parseQualifiedWeekday ext p)"
proof (cases "p = []")
  case True
  then show ?thesis by (simp add: parseQualifiedWeekday_def)
next
  case ne: False
  define idx0 :: nat where "idx0 = (if hd p = CHR ''-'' \<or> hd p = CHR ''+'' then 1 else 0)"
  define idx where "idx = idx0 + digit_run ext (drop idx0 p)"
  have pq: "parseQualifiedWeekday ext p =
      (case (if 0 < idx then Atoi (take idx p) else Inr 0) of
         Inl e \<Rightarrow> Inl e
       | Inr digit \<Rightarrow>
           (case parseWeekday ext (drop idx p) of
              Inl e \<Rightarrow> Inl e
            | Inr wd \<Rightarrow> Inr \<lparr>N = digit, WD = wd\<rparr>))"
    unfolding idx_def idx0_def parseQualifiedWeekday_def Let_def using ne by simp
  have pl: "prefix_len p = idx0 + length (takeWhile is_digit (drop idx0 p))"
    using ne by (simp add: prefix_len_def idx0_def)
  from digit_run_cases [of ext "drop idx0 p"] show ?thesis
  proof
    assume "digit_run ext (drop idx0 p) = length (takeWhile is_digit (drop idx0 p))"
    then have "idx = prefix_len p" by (simp add: idx_def pl)
    with assms have w: "isl (parseWeekday ext (drop idx p))" by simp
    show ?thesis unfolding pq using w
      by (cases "if 0 < idx then Atoi (take idx p) else Inr 0";
          cases "parseWeekday ext (drop idx p)") simp_all
  next
    assume bad: "\<exists>c \<in> set (take (digit_run ext (drop idx0 p)) (drop idx0 p)). \<not> is_digit c"
    then have pos: "0 < digit_run ext (drop idx0 p)" by (cases "digit_run ext (drop idx0 p)") auto
    have "isl (Atoi (take idx p))"
    proof (cases "hd p = CHR ''-'' \<or> hd p = CHR ''+''")
      case True
      then have i0: "idx0 = 1" by (simp add: idx0_def)
      obtain c cs where p: "p = c # cs" using ne by (cases p) auto
      have "take idx p = c # take (digit_run ext cs) cs" using p i0 by (simp add: idx_def)
      moreover have "\<exists>x \<in> set (take (digit_run ext cs) cs). \<not> is_digit x"
        using bad p i0 by simp
      ultimately show ?thesis using True p Atoi_bad_body(1,2) by auto
    next
      case False
      then have i0: "idx0 = 0" by (simp add: idx0_def)
      then have t: "take idx p = take (digit_run ext p) p" by (simp add: idx_def)
      have b: "\<exists>x \<in> set (take (digit_run ext p) p). \<not> is_digit x" using bad i0 by simp
      have "hd (take (digit_run ext p) p) = hd p"
        using pos i0 ne by (cases p; cases "digit_run ext p") auto
      with False have "hd (take (digit_run ext p) p) \<noteq> CHR ''-''"
        "hd (take (digit_run ext p) p) \<noteq> CHR ''+''" by auto
      then show ?thesis using Atoi_bad_body(3) [OF b] t by simp
    qed
    moreover have "0 < idx" using pos by (simp add: idx_def)
    ultimately show ?thesis unfolding pq
      by (cases "Atoi (take idx p)") simp_all
  qed
qed

lemmas byday_eval = parseQualifiedWeekdays_def parseQualifiedWeekday_def parseWeekday_def
  ToLower_def Atoi_def Let_def char_eval

lemma mapM_map_all:
  "(\<And>x. x \<in> set xs \<Longrightarrow> f (g x) = Inr (h x)) \<Longrightarrow> mapM f (map g xs) = Inr (map h xs)"
  by (induction xs) auto

text \<open>
  C7 (amended). The BYDAY parser maps a comma-separated list of segments, each an optional
  sign and decimal digits followed by a two-letter weekday code in any casing, to the
  qualified weekdays with these ordinals (0 when absent) and weekdays, provided each
  ordinal fits a signed 64-bit integer; \<open>+35WE\<close> gives 35 and Wednesday, \<open>-17MO\<close> gives
  -17 and Monday. An empty segment yields an error, and so does a segment whose
  remainder after the sign and digits is not accepted by \<open>parseWeekday\<close>, which on ASCII
  text accepts exactly the seven codes in any casing.
\<close>

theorem byday_segments_parse:
  "((\<forall>s \<in> set segs. seg_shape s \<and> in_int_range (seg_ordinal s)) \<and> segs \<noteq> [] \<longrightarrow>
      parseQualifiedWeekdays ext (join_commas (map seg_text segs)) = Inr (map seg_value segs))
   \<and> parseQualifiedWeekdays ext ''+35WE'' = Inr [\<lparr>N = 35, WD = Wednesday\<rparr>]
   \<and> parseQualifiedWeekdays ext ''-17MO'' = Inr [\<lparr>N = - 17, WD = Monday\<rparr>]
   \<and> ([] \<in> set (Split str (CHR '','')) \<longrightarrow> isl (parseQualifiedWeekdays ext str))
   \<and> (p \<in> set (Split str (CHR '','')) \<and> isl (parseWeekday ext (drop (prefix_len p) p)) \<longrightarrow>
        isl (parseQualifiedWeekdays ext str))
   \<and> (list_all is_ascii w \<longrightarrow>
        parseWeekday ext w =
          (case weekday_code w of Some wd \<Rightarrow> Inr wd | None \<Rightarrow> Inl (InvalidWeekday w)))"
proof (intro conjI impI)
  assume h: "(\<forall>s \<in> set segs. seg_shape s \<and> in_int_range (seg_ordinal s)) \<and> segs \<noteq> []"
  then have "\<forall>t \<in> set (map seg_text segs). CHR '','' \<notin> set t"
    by (auto dest: shaped_no_comma)
  with h have "Split (join_commas (map seg_text segs)) (CHR '','') = map seg_text segs"
    by (intro Split_join) auto
  moreover have "mapM (parseQualifiedWeekday ext) (map seg_text segs) = Inr (map seg_value segs)"
    using h by (intro mapM_map_all) (auto simp: parse_shaped_segment)
  ultimately show "parseQualifiedWeekdays ext (join_commas (map seg_text segs)) = Inr (map seg_value segs)"
    by (simp add: parseQualifiedWeekdays_def)
next
  show "parseQualifiedWeekdays ext ''+35WE'' = Inr [\<lparr>N = 35, WD = Wednesday\<rparr>]"
    by (simp add: byday_eval)
next
  show "parseQualifiedWeekdays ext ''-17MO'' = Inr [\<lparr>N = - 17, WD = Monday\<rparr>]"
    by (simp add: byday_eval)
next
  assume "[] \<in> set (Split str (CHR '',''))"
  moreover have "isl (parseQualifiedWeekday ext [])" by (simp add: parseQualifiedWeekday_def)
  ultimately show "isl (parseQualifiedWeekdays ext str)"
    unfolding parseQualifiedWeekdays_def by (rule mapM_error)
next
  assume h: "p \<in> set (Split str (CHR '','')) \<and> isl (parseWeekday ext (drop (prefix_len p) p))"
  then have "isl (parseQualifiedWeekday ext p)" by (intro bad_remainder_error) simp
  with h show "isl (parseQualifiedWeekdays ext str)"
    unfolding parseQualifiedWeekdays_def by (intro mapM_error [of p]) auto
next
  assume "list_all is_ascii w"
  then show "parseWeekday ext w =
      (case weekday_code w of Some wd \<Rightarrow> Inr wd | None \<Rightarrow> Inl (InvalidWeekday w))"
    by (rule parseWeekday_ascii)
qed

text \<open>
  C7 as stated fails on an ordinal outside the range of a signed 64-bit integer:
  \<open>strconv.Atoi\<close> reports a range error and the segment is rejected.
\<close>

theorem byday_ordinal_range_counterexample:
  "seg_shape ([], ''9223372036854775808'', ''MO'')
   \<and> seg_text ([], ''9223372036854775808'', ''MO'') = ''9223372036854775808MO''
   \<and> parseQualifiedWeekdays example_externals ''9223372036854775808MO''
       = Inl (ErrRange ''9223372036854775808'')"
  by (simp add: seg_shape_def seg_text_def weekday_code_def weekday_codes_def byday_eval)

theorem byday_segments_parse_witness:
  "parseQualifiedWeekdays example_externals ''tu,+35We,-17mo''
     = Inr [\<lparr>N = 0, WD = Tuesday\<rparr>, \<lparr>N = 35, WD = Wednesday\<rparr>, \<lparr>N = - 17, WD = Monday\<rparr>]
   \<and> isl (parseQualifiedWeekdays example_externals ''MO,,TU'')
   \<and> isl (parseQualifiedWeekdays example_externals ''2XX'')
   \<and> parseWeekday example_externals ''Fr'' = Inr Friday"
proof -
  let ?segs = "[([], [], ''tu''), (''+'', ''35'', ''We''), (''-'', ''17'', ''mo'')]"
  have sh: "\<forall>s \<in> set ?segs. seg_shape s \<and> in_int_range (seg_ordinal s)"
    by (simp add: seg_shape_def seg_ordinal_def in_int_range_def decimal_def weekday_code_def
        weekday_codes_def char_eval)
  have tx: "join_commas (map seg_text ?segs) = ''tu,+35We,-17mo''"
    by (simp add: seg_text_def)
  have vl: "map seg_value ?segs
      = [\<lparr>N = 0, WD = Tuesday\<rparr>, \<lparr>N = 35, WD = Wednesday\<rparr>, \<lparr>N = - 17, WD = Monday\<rparr>]"
    by (simp add: seg_value_def seg_ordinal_def decimal_def weekday_code_def weekday_codes_def
        char_eval)
  have e1: "[] \<in> set (Split ''MO,,TU'' (CHR '',''))" by simp
  have e2: "''2XX'' \<in> set (Split ''2XX'' (CHR '',''))"
    "isl (parseWeekday example_externals (drop (prefix_len ''2XX'') ''2XX''))"
    by (simp_all add: prefix_len_def parseWeekday_def ToLower_def Let_def char_eval)
  have a: "list_all is_ascii ''Fr''" "weekday_code ''Fr'' = Some Friday"
    by (simp_all add: weekday_code_def weekday_codes_def char_eval)
  from byday_segments_parse [of ?segs example_externals "''MO,,TU''" "''2XX''" "''Fr''"]
       byday_segments_parse [of ?segs example_externals "''2XX''" "''2XX''" "''Fr''"]
       sh tx vl e1 e2 a
  show ?thesis by simp
qed

section \<open>Tokens beyond the scanner's limit\<close>

lemma scan_after_first:
  assumes "scan d [] rest = []" "d \<notin> set l" "length l < MaxScanTokenSize"
  shows "scan d [] (l @ d # rest) = [l]"
  using assms by (simp add: scan_line_first)

text \<open>
  C5. \<open>ParseRRule\<close> is to return an error whenever some \<open>KEY=VALUE\<close> segment has an
  unsupported key. It does not when a segment reaches 65536 bytes: \<open>Scan\<close> returns false
  there (\<open>bufio.ErrTooLong\<close>), \<open>scanner.Err()\<close> is never read, and the loop ends as it
  does at the end of the input. The segment with the unsupported key of 65536 letters is
  never examined: after \<open>FREQ=DAILY;\<close> the result is that of the body \<open>FREQ=DAILY\<close>, and
  alone it is the verdict of \<open>Validate\<close> on the empty rule.
\<close>

theorem unknown_key_overlong_unseen:
  "CHR ''='' \<notin> set long_token
   \<and> ToUpper ext long_token \<notin> set supported_keys
   \<and> long_token @ ''=1'' \<in> set (Split (''FREQ=DAILY;'' @ long_token @ ''=1'') (CHR '';''))
   \<and> ParseRRule ext (''FREQ=DAILY;'' @ long_token @ ''=1'') = ParseRRule ext ''FREQ=DAILY''
   \<and> ParseRRule ext (long_token @ ''=1'') = (zero_RRule, Validate ext zero_RRule)"
proof (intro conjI)
  show "CHR ''='' \<notin> set long_token" by (simp add: long_token_def)
  have "length (ToUpper ext long_token) = 65536"
    using long_token_ascii by (simp add: ToUpper_def long_token_def)
  then show "ToUpper ext long_token \<notin> set supported_keys"
    using supported_short [of "ToUpper ext long_token"] by auto
  have ns: "CHR '';'' \<notin> set (long_token @ ''=1'')" by (simp add: long_token_def)
  have "Split (''FREQ=DAILY'' @ CHR '';'' # long_token @ ''=1'') (CHR '';'')
      = ''FREQ=DAILY'' # Split (long_token @ ''=1'') (CHR '';'')"
    by (rule Split_append_sep) simp
  then show "long_token @ ''=1'' \<in> set (Split (''FREQ=DAILY;'' @ long_token @ ''=1'') (CHR '';''))"
    using ns by (simp add: Split_no_sep)
  have over: "scan (CHR '';'') [] (replicate 65536 (CHR ''A'') @ ''=1'') = []"
    by (rule scan_overrun) (simp_all add: MaxScanTokenSize_def)
  then have o: "scan (CHR '';'') [] (long_token @ ''=1'') = []" by (simp add: long_token_def)
  have "scan (CHR '';'') [] (''FREQ=DAILY'' @ CHR '';'' # long_token @ ''=1'') = [''FREQ=DAILY'']"
    using o by (rule scan_after_first) (simp_all add: MaxScanTokenSize_def)
  moreover have "scan (CHR '';'') [] ''FREQ=DAILY'' = [''FREQ=DAILY'']"
    by (simp add: MaxScanTokenSize_def)
  ultimately show "ParseRRule ext (''FREQ=DAILY;'' @ long_token @ ''=1'') = ParseRRule ext ''FREQ=DAILY''"
    by (simp add: ParseRRule_def)
  show "ParseRRule ext (long_token @ ''=1'') = (zero_RRule, Validate ext zero_RRule)"
    using o by (simp add: ParseRRule_def)
qed

text \<open>
  C6. \<open>ParseRecurrence\<close> is to return an error for every input with a line that has no
  \<open>:\<close> or \<open>;\<close>, and to ignore a well-formed line with an unknown property name. It does
  neither when a line reaches 65536 bytes: \<open>Scan\<close> returns false there
  (\<open>bufio.ErrTooLong\<close>), \<open>scanner.Err()\<close> is never read, and the recurrence read so far
  is returned without an error. A line of 65536 letters without \<open>:\<close> or \<open>;\<close> is
  accepted, and an over-long line with the unknown name \<open>X-FOO\<close> is not ignored: it ends
  the parse and hides the malformed line \<open>RRULE\<close> after it, which alone is an error.
\<close>

theorem malformed_line_overlong_unseen:
  "long_token \<in> set (lines_of long_token) \<and> malformed long_token
   \<and> ParseRecurrence ext long_token loc = Inr (setDtstart ext zero_Recurrence)
   \<and> \<not> malformed (''X-FOO:'' @ long_token)
   \<and> prop_name (''X-FOO:'' @ long_token) \<notin> set known_names
   \<and> ParseRecurrence ext (''X-FOO:'' @ long_token @ CHR 0x0A # ''RRULE'') loc
       = Inr (setDtstart ext zero_Recurrence)
   \<and> isl (ParseRecurrence ext ''RRULE'' loc)"
proof (intro conjI)
  have "CHR 0x0A \<notin> set long_token" by (simp add: long_token_def)
  then have "Split long_token (CHR 0x0A) = [long_token]" by (rule Split_no_sep)
  moreover have "dropCR long_token = long_token" by (simp add: dropCR_def long_token_def)
  moreover have "long_token \<noteq> []" by (simp add: long_token_def)
  ultimately show "long_token \<in> set (lines_of long_token)"
    by (simp add: lines_of_def trim_last_def)
  show "malformed long_token" using long_token_plain by (simp add: malformed_def)
  have "scan (CHR 0x0A) [] (replicate 65536 (CHR ''A'') @ []) = []"
    by (rule scan_overrun) (simp_all add: MaxScanTokenSize_def)
  then show "ParseRecurrence ext long_token loc = Inr (setDtstart ext zero_Recurrence)"
    by (simp add: ParseRecurrence_def ScanLines_def long_token_def)
  have l: "last (''X-FOO:'' @ long_token) = CHR ''A''" by (simp add: long_token_def)
  show "\<not> malformed (''X-FOO:'' @ long_token)"
    using l by (simp add: malformed_def is_sep_def)
  show "prop_name (''X-FOO:'' @ long_token) \<notin> set known_names"
    by (simp add: prop_name_def is_sep_def known_names_def)
  have "scan (CHR 0x0A) [CHR '':'', CHR ''O'', CHR ''O'', CHR ''F'', CHR ''-'', CHR ''X'']
          (replicate 65536 (CHR ''A'') @ CHR 0x0A # ''RRULE'') = []"
    by (rule scan_overrun) (simp_all add: MaxScanTokenSize_def)
  then have "scan (CHR 0x0A) [] (''X-FOO:'' @ long_token @ CHR 0x0A # ''RRULE'') = []"
    by (simp add: long_token_def MaxScanTokenSize_def)
  then show "ParseRecurrence ext (''X-FOO:'' @ long_token @ CHR 0x0A # ''RRULE'') loc
       = Inr (setDtstart ext zero_Recurrence)"
    by (simp add: ParseRecurrence_def ScanLines_def)
  show "isl (ParseRecurrence ext ''RRULE'' loc)"
    by (simp add: ParseRecurrence_def ScanLines_def MaxScanTokenSize_def dropCR_def parse_line_def)
qed

section \<open>The first Tuesdays of the months after the anchor\<close>

lemma gen_step_terminal: "status g \<noteq> Active \<Longrightarrow> gen_step r g = g"
  by (simp add: gen_step_def)

lemma funpow_terminal: "status g \<noteq> Active \<Longrightarrow> (gen_step r ^^ k) g = g"
  by (induction k) (simp_all add: gen_step_terminal)

lemma generate_add: "generate r (m + k) = (gen_step r ^^ k) (generate r m)"
  by (simp add: generate_def funpow_add add.commute)

lemma generate_settled:
  assumes "status (generate r m) \<noteq> Active" "m \<le> n"
  shows "generate r n = generate r m"
proof -
  from assms(2) obtain k where "n = m + k" by (auto simp: le_iff_add)
  then show ?thesis using assms(1) by (simp add: generate_add funpow_terminal)
qed

lemma first_tuesdays_fields:
  "Frequency first_tuesdays = Monthly" "Count first_tuesdays = 3"
  "Dtstart first_tuesdays = Date 2018 8 25 9 8 7 6 ''UTC''"
  "ByWeekdays first_tuesdays = [\<lparr>N = 1, WD = Tuesday\<rparr>]"
  "BySetPos first_tuesdays = []" "Interval first_tuesdays = 0"
  "Until first_tuesdays = zero_Time"
  by (simp_all add: first_tuesdays_def zero_RRule_def now_def)

lemma first_tuesdays_candidates:
  "candidate_set first_tuesdays t = month_days_of t OmitInvalid \<lparr>N = 1, WD = Tuesday\<rparr>"
  by (simp add: candidate_set_def Let_def first_tuesdays_def zero_RRule_def
      expandMonthByWeekdays_def expandByMonthDays_def expandByHours_def expandByMinutes_def
      expandBySeconds_def limit_by_def weekdaysInMonth_def)

lemma month_days_first:
  assumes "Year t = y" "Month t = m" "Hour t = h" "Minute t = mi" "Second t = s"
    "Nanosecond t = ns" "Location t = l"
    "first_weekday_in_month y m wd = d" "d \<le> days_in_month y m"
  shows "month_days_of t ib \<lparr>N = 1, WD = wd\<rparr> = [Date y m d h mi s ns l]"
  using assms by (simp add: month_days_of_def Let_def resolveDay_def at_day_def)



lemma periods_2018:
  "Year (Date 2018 8 25 9 8 7 6 ''UTC'') = 2018 \<and> Month (Date 2018 8 25 9 8 7 6 ''UTC'') = 8 \<and> Day (Date 2018 8 25 9 8 7 6 ''UTC'') = 25 \<and>
   Hour (Date 2018 8 25 9 8 7 6 ''UTC'') = 9 \<and> Minute (Date 2018 8 25 9 8 7 6 ''UTC'') = 8 \<and> Second (Date 2018 8 25 9 8 7 6 ''UTC'') = 7 \<and>
   Nanosecond (Date 2018 8 25 9 8 7 6 ''UTC'') = 6 \<and> Location (Date 2018 8 25 9 8 7 6 ''UTC'') = ''UTC''"
  "Year (Date 2018 9 25 9 8 7 6 ''UTC'') = 2018 \<and> Month (Date 2018 9 25 9 8 7 6 ''UTC'') = 9 \<and> Day (Date 2018 9 25 9 8 7 6 ''UTC'') = 25 \<and>
   Hour (Date 2018 9 25 9 8 7 6 ''UTC'') = 9 \<and> Minute (Date 2018 9 25 9 8 7 6 ''UTC'') = 8 \<and> Second (Date 2018 9 25 9 8 7 6 ''UTC'') = 7 \<and>
   Nanosecond (Date 2018 9 25 9 8 7 6 ''UTC'') = 6 \<and> Location (Date 2018 9 25 9 8 7 6 ''UTC'') = ''UTC''"
  "Year (Date 2018 10 25 9 8 7 6 ''UTC'') = 2018 \<and> Month (Date 2018 10 25 9 8 7 6 ''UTC'') = 10 \<and> Day (Date 2018 10 25 9 8 7 6 ''UTC'') = 25 \<and>
   Hour (Date 2018 10 25 9 8 7 6 ''UTC'') = 9 \<and> Minute (Date 2018 10 25 9 8 7 6 ''UTC'') = 8 \<and> Second (Date 2018 10 25 9 8 7 6 ''UTC'') = 7 \<and>
   Nanosecond (Date 2018 10 25 9 8 7 6 ''UTC'') = 6 \<and> Location (Date 2018 10 25 9 8 7 6 ''UTC'') = ''UTC''"
  "Year (Date 2018 11 25 9 8 7 6 ''UTC'') = 2018 \<and> Month (Date 2018 11 25 9 8 7 6 ''UTC'') = 11 \<and> Day (Date 2018 11 25 9 8 7 6 ''UTC'') = 25 \<and>
   Hour (Date 2018 11 25 9 8 7 6 ''UTC'') = 9 \<and> Minute (Date 2018 11 25 9 8 7 6 ''UTC'') = 8 \<and> Second (Date 2018 11 25 9 8 7 6 ''UTC'') = 7 \<and>
   Nanosecond (Date 2018 11 25 9 8 7 6 ''UTC'') = 6 \<and> Location (Date 2018 11 25 9 8 7 6 ''UTC'') = ''UTC''"
  by (simp_all add: date_eval civil_eval cong: let_weak_cong)

lemmas weekday_eval = Weekday_def abs_days_def abs_sec_def weekday_of_def date_eval

lemma first_tuesdays_2018:
  "first_weekday_in_month 2018 8 Tuesday = 7" "first_weekday_in_month 2018 9 Tuesday = 4"
  "first_weekday_in_month 2018 10 Tuesday = 2" "first_weekday_in_month 2018 11 Tuesday = 6"
  by (simp_all add: first_weekday_in_month_def weekday_eval cong: let_weak_cong)

lemma month_lengths_2018:
  "days_in_month 2018 8 = 31" "days_in_month 2018 9 = 30" "days_in_month 2018 10 = 31"
  "days_in_month 2018 11 = 30"
  by (simp_all add: days_in_month_def days_before_month_def daysBefore_def isLeap_def)



lemma first_tuesday_candidates_2018:
  "candidate_set first_tuesdays (Date 2018 8 25 9 8 7 6 ''UTC'') = [Date 2018 8 7 9 8 7 6 ''UTC'']"
  "candidate_set first_tuesdays (Date 2018 9 25 9 8 7 6 ''UTC'') = [Date 2018 9 4 9 8 7 6 ''UTC'']"
  "candidate_set first_tuesdays (Date 2018 10 25 9 8 7 6 ''UTC'') = [Date 2018 10 2 9 8 7 6 ''UTC'']"
  "candidate_set first_tuesdays (Date 2018 11 25 9 8 7 6 ''UTC'') = [Date 2018 11 6 9 8 7 6 ''UTC'']"
  unfolding first_tuesdays_candidates
  by (rule month_days_first;
      simp add: periods_2018 first_tuesdays_2018 month_lengths_2018)+

lemma monthly_steps_2018:
  "step (Date 2018 8 25 9 8 7 6 ''UTC'') Monthly 1 = Date 2018 9 25 9 8 7 6 ''UTC''"
  "step (Date 2018 9 25 9 8 7 6 ''UTC'') Monthly 1 = Date 2018 10 25 9 8 7 6 ''UTC''"
  "step (Date 2018 10 25 9 8 7 6 ''UTC'') Monthly 1 = Date 2018 11 25 9 8 7 6 ''UTC''"
  "step (Date 2018 11 25 9 8 7 6 ''UTC'') Monthly 1 = Date 2018 12 25 9 8 7 6 ''UTC''"
  by (simp_all add: step_def AddDate_def periods_2018)

lemma instants_2018:
  "t_abs (Date 2018 8 25 9 8 7 6 ''UTC'') = 63670784887000000006"
  "t_abs (Date 2018 8 7 9 8 7 6 ''UTC'') = 63669229687000000006"
  "t_abs (Date 2018 9 4 9 8 7 6 ''UTC'') = 63671648887000000006"
  "t_abs (Date 2018 10 2 9 8 7 6 ''UTC'') = 63674068087000000006"
  "t_abs (Date 2018 11 6 9 8 7 6 ''UTC'') = 63677092087000000006"
  by (simp_all add: date_eval)

lemmas gen_eval = gen_step_def Let_def first_tuesdays_fields interval_of_def until_set_def
  zero_Time_def Before_def After_def

lemma first_tuesdays_run:
  "gen_step first_tuesdays (gen_start first_tuesdays) =
     \<lparr>period = Date 2018 9 25 9 8 7 6 ''UTC'', yielded = [], empties = 1, status = Active\<rparr>"
  "gen_step first_tuesdays
     \<lparr>period = Date 2018 9 25 9 8 7 6 ''UTC'', yielded = [], empties = 1, status = Active\<rparr> =
     \<lparr>period = Date 2018 10 25 9 8 7 6 ''UTC'', yielded = [Date 2018 9 4 9 8 7 6 ''UTC''],
      empties = 0, status = Active\<rparr>"
  "gen_step first_tuesdays
     \<lparr>period = Date 2018 10 25 9 8 7 6 ''UTC'', yielded = [Date 2018 9 4 9 8 7 6 ''UTC''],
      empties = 0, status = Active\<rparr> =
     \<lparr>period = Date 2018 11 25 9 8 7 6 ''UTC'',
      yielded = [Date 2018 9 4 9 8 7 6 ''UTC'', Date 2018 10 2 9 8 7 6 ''UTC''],
      empties = 0, status = Active\<rparr>"
  "gen_step first_tuesdays
     \<lparr>period = Date 2018 11 25 9 8 7 6 ''UTC'',
      yielded = [Date 2018 9 4 9 8 7 6 ''UTC'', Date 2018 10 2 9 8 7 6 ''UTC''],
      empties = 0, status = Active\<rparr> =
     \<lparr>period = Date 2018 12 25 9 8 7 6 ''UTC'',
      yielded = [Date 2018 9 4 9 8 7 6 ''UTC'', Date 2018 10 2 9 8 7 6 ''UTC'',
                 Date 2018 11 6 9 8 7 6 ''UTC''],
      empties = 0, status = Drained\<rparr>"
  by (simp_all add: gen_start_def gen_eval first_tuesday_candidates_2018 monthly_steps_2018
      instants_2018)



lemma first_tuesdays_four:
  "generate first_tuesdays 4 =
     \<lparr>period = Date 2018 12 25 9 8 7 6 ''UTC'',
      yielded = [Date 2018 9 4 9 8 7 6 ''UTC'', Date 2018 10 2 9 8 7 6 ''UTC'',
                 Date 2018 11 6 9 8 7 6 ''UTC''],
      empties = 0, status = Drained\<rparr>"
proof -
  have "generate first_tuesdays 4 =
      gen_step first_tuesdays (gen_step first_tuesdays (gen_step first_tuesdays
        (gen_step first_tuesdays (gen_start first_tuesdays))))"
    by (simp add: generate_def eval_nat_numeral)
  then show ?thesis by (simp only: first_tuesdays_run)
qed

lemma first_tuesdays_parsed:
  "fst (ParseRRule ext ''FREQ=MONTHLY;COUNT=3;BYDAY=1TU'')\<lparr>Dtstart := now\<rparr> = first_tuesdays"
  by (simp add: ParseRRule_def MaxScanTokenSize_def parse_segment_def SplitN2_def
      apply_directive_def ToUpper_def store_def strToFreq_def byday_eval first_tuesdays_def
      zero_RRule_def)

lemma first_tuesdays_rendering:
  "rfc_fields (Date 2018 9 4 9 8 7 6 ''UTC'') = (2018, 9, 4, 9, 8, 7, ''UTC'')"
  "rfc_fields (Date 2018 10 2 9 8 7 6 ''UTC'') = (2018, 10, 2, 9, 8, 7, ''UTC'')"
  "rfc_fields (Date 2018 11 6 9 8 7 6 ''UTC'') = (2018, 11, 6, 9, 8, 7, ''UTC'')"
  by (simp_all add: rfc_fields_def date_eval civil_eval cong: let_weak_cong)

text \<open>
  C2. The rule with frequency \<open>Monthly\<close>, count 3 and the first Tuesday as its weekday,
  anchored at \<open>now\<close> (2018-08-25T09:08:07Z), which is also what
  \<open>FREQ=MONTHLY;COUNT=3;BYDAY=1TU\<close> parses to: once four periods have been visited the
  generator has yielded exactly the instants rendered 2018-09-04T09:08:07Z,
  2018-10-02T09:08:07Z and 2018-11-06T09:08:07Z, in that order, it is \<open>Drained\<close>, and no
  number of further steps adds an instant; \<open>All\<close> without a limit returns these three.
  August's first Tuesday, the 7th, lies before the anchor and is not yielded.
\<close>

theorem first_tuesdays_scenario:
  assumes "4 \<le> n"
  shows "fst (ParseRRule ext ''FREQ=MONTHLY;COUNT=3;BYDAY=1TU'')\<lparr>Dtstart := now\<rparr> = first_tuesdays
       \<and> yielded (generate first_tuesdays n) =
           [Date 2018 9 4 9 8 7 6 ''UTC'', Date 2018 10 2 9 8 7 6 ''UTC'',
            Date 2018 11 6 9 8 7 6 ''UTC'']
       \<and> status (generate first_tuesdays n) = Drained
       \<and> All_rrule first_tuesdays 0 n = yielded (generate first_tuesdays n)
       \<and> rfcAll (All_rrule first_tuesdays 0 n) =
           [(2018, 9, 4, 9, 8, 7, ''UTC''), (2018, 10, 2, 9, 8, 7, ''UTC''),
            (2018, 11, 6, 9, 8, 7, ''UTC'')]"
proof -
  have "status (generate first_tuesdays 4) \<noteq> Active" by (simp add: first_tuesdays_four)
  then have "generate first_tuesdays n = generate first_tuesdays 4"
    using assms by (rule generate_settled)
  then show ?thesis
    by (simp add: first_tuesdays_four All_rrule_def first_tuesdays_parsed rfcAll_def
        first_tuesdays_rendering)
qed

theorem first_tuesdays_scenario_witness:
  "rfcAll (All_rrule first_tuesdays 0 4) =
     [(2018, 9, 4, 9, 8, 7, ''UTC''), (2018, 10, 2, 9, 8, 7, ''UTC''),
      (2018, 11, 6, 9, 8, 7, ''UTC'')]
   \<and> status (generate first_tuesdays 4) = Drained"
proof -
  have "(4::nat) \<le> 4" by simp
  from first_tuesdays_scenario [OF this, of example_externals] show ?thesis by blast
qed

end
